theory Spec2Isabelle
  imports Main "HOL-Library.Mapping" "HOL-Library.AList_Mapping"
begin

section \<open>Go strings\<close>

text \<open>
  A Go string is a sequence of bytes; it is modelled as a \<open>string\<close> (a list of
  \<open>char\<close>, one per byte). The functions of package \<open>strings\<close> that page.go calls are
  modelled here for the arguments page.go gives them: the separators are the one-byte
  strings \<open>","\<close> and \<open>":"\<close>.
\<close>

definition byte :: "char \<Rightarrow> nat" where
  "byte c = of_char c"

text \<open>
  \<open>strings.TrimSpace\<close> removes the leading and the trailing white space "as defined by
  Unicode": the runes for which \<open>unicode.IsSpace\<close> holds, read from the UTF-8 bytes of
  the string. These are the six ASCII bytes of the table \<open>asciiSpace\<close> (tab, newline,
  vertical tab, form feed, carriage return, space), the two-byte encodings of U+0085
  and U+00A0, and the three-byte encodings of U+1680, U+2000 to U+200A, U+2028, U+2029,
  U+202F, U+205F and U+3000. A byte sequence that is not one of these encodings is no
  white space (an invalid encoding decodes to U+FFFD, one byte wide).
\<close>

definition asciiSpace :: "char \<Rightarrow> bool" where
  "asciiSpace c = (byte c = 9 \<or> byte c = 10 \<or> byte c = 11 \<or> byte c = 12 \<or> byte c = 13 \<or> byte c = 32)"

definition space2 :: "char \<Rightarrow> char \<Rightarrow> bool" where
  "space2 a b = (byte a = 0xC2 \<and> (byte b = 0x85 \<or> byte b = 0xA0))"

definition space3 :: "char \<Rightarrow> char \<Rightarrow> char \<Rightarrow> bool" where
  "space3 a b c =
     (byte a = 0xE1 \<and> byte b = 0x9A \<and> byte c = 0x80 \<or>
      byte a = 0xE2 \<and> byte b = 0x80 \<and>
        (0x80 \<le> byte c \<and> byte c \<le> 0x8A \<or> byte c = 0xA8 \<or> byte c = 0xA9 \<or> byte c = 0xAF) \<or>
      byte a = 0xE2 \<and> byte b = 0x81 \<and> byte c = 0x9F \<or>
      byte a = 0xE3 \<and> byte b = 0x80 \<and> byte c = 0x80)"

text \<open>The leading white space is taken off rune by rune.\<close>

fun TrimLeftSpace :: "string \<Rightarrow> string" where
  "TrimLeftSpace (a # b # c # s) =
     (if asciiSpace a then TrimLeftSpace (b # c # s)
      else if space2 a b then TrimLeftSpace (c # s)
      else if space3 a b c then TrimLeftSpace s
      else a # b # c # s)"
| "TrimLeftSpace [a, b] =
     (if asciiSpace a then TrimLeftSpace [b] else if space2 a b then [] else [a, b])"
| "TrimLeftSpace [a] = (if asciiSpace a then [] else [a])"
| "TrimLeftSpace [] = []"

text \<open>The trailing white space, on the reversed string: the last rune of a string is
  a white space exactly when the string ends with one of the encodings.\<close>

fun trimRightRev :: "string \<Rightarrow> string" where
  "trimRightRev (c # b # a # s) =
     (if asciiSpace c then trimRightRev (b # a # s)
      else if space2 b c then trimRightRev (a # s)
      else if space3 a b c then trimRightRev s
      else c # b # a # s)"
| "trimRightRev [c, b] =
     (if asciiSpace c then trimRightRev [b] else if space2 b c then [] else [c, b])"
| "trimRightRev [c] = (if asciiSpace c then [] else [c])"
| "trimRightRev [] = []"

definition TrimRightSpace :: "string \<Rightarrow> string" where
  "TrimRightSpace s = rev (trimRightRev (rev s))"

definition TrimSpace :: "string \<Rightarrow> string" where
  "TrimSpace s = TrimRightSpace (TrimLeftSpace s)"

text \<open>
  \<open>strings.ToLower\<close>: a string of ASCII bytes has its letters \<open>A\<close> to \<open>Z\<close> replaced; a
  string with a byte from 0x80 on is mapped rune by rune with \<open>unicode.ToLower\<close>
  (\<open>strings.Map(unicode.ToLower, s)\<close>). The case tables of package \<open>unicode\<close> are not
  part of the repository: that mapping of a whole string is the parameter
  \<open>unicodeLower\<close>, and what is proved holds for every such function.
\<close>

definition toLower :: "char \<Rightarrow> char" where
  "toLower c = (if 65 \<le> byte c \<and> byte c \<le> 90 then char_of (byte c + 32) else c)"

definition asciiLower :: "string \<Rightarrow> string" where
  "asciiLower s = map toLower s"

definition ToLower :: "(string \<Rightarrow> string) \<Rightarrow> string \<Rightarrow> string" where
  "ToLower unicodeLower s =
     (if list_all (\<lambda>c. byte c < 128) s then asciiLower s else unicodeLower s)"

definition HasPrefix :: "string \<Rightarrow> string \<Rightarrow> bool" where
  "HasPrefix s pre = (take (length pre) s = pre)"

definition TrimPrefix :: "string \<Rightarrow> string \<Rightarrow> string" where
  "TrimPrefix s pre = (if HasPrefix s pre then drop (length pre) s else s)"

text \<open>\<open>strings.Cut(s, sep)\<close> for a one-byte separator: the text before the first
  separator, the text after it, and whether there is one.\<close>

definition Cut :: "string \<Rightarrow> char \<Rightarrow> string \<times> string \<times> bool" where
  "Cut s sep =
     (if sep \<in> set s
      then (takeWhile (\<lambda>c. c \<noteq> sep) s, drop 1 (dropWhile (\<lambda>c. c \<noteq> sep) s), True)
      else (s, [], False))"

text \<open>\<open>strings.SplitN(s, sep, 2)\<close>: at most two substrings, the second one the unsplit
  remainder.\<close>

definition SplitN2 :: "string \<Rightarrow> char \<Rightarrow> string list" where
  "SplitN2 s sep = (case Cut s sep of (before, after, found) \<Rightarrow>
     if found then [before, after] else [s])"

text \<open>\<open>strings.Split(s, sep)\<close>: all substrings between separators; \<open>cur\<close> holds the
  bytes of the current substring, last byte first.\<close>

fun split_from :: "char \<Rightarrow> string \<Rightarrow> string \<Rightarrow> string list" where
  "split_from sep cur [] = [rev cur]"
| "split_from sep cur (c # s) =
     (if c = sep then rev cur # split_from sep [] s else split_from sep (c # cur) s)"

definition Split :: "string \<Rightarrow> char \<Rightarrow> string list" where
  "Split s sep = split_from sep [] s"

section \<open>Data model\<close>

text \<open>
  The ways the program stops: \<open>Panic msg\<close> is a call of \<open>panic\<close> with the formatted
  message (through \<open>panicIf\<close> and \<open>panicIfErr\<close>), \<open>NilDeref\<close> is the runtime panic of a
  field read through a nil pointer.
\<close>

datatype error = Panic string | NilDeref

text \<open>Modelled from the spec: \<open>panicIf\<close> is declared outside page.go; it signals a fatal
  error (a panic carrying the formatted message) when its condition holds and does
  nothing otherwise. The message is passed already formatted.\<close>

definition panicIf :: "bool \<Rightarrow> string \<Rightarrow> error + unit" where
  "panicIf cond msg = (if cond then Inl (Panic msg) else Inr ())"

text \<open>The block types of notionapi that page.go tells apart.\<close>

datatype BlockType = BlockText | BlockPage | BlockEmbed | BlockOther string

text \<open>An inline run of notionapi: its text and the result of its method \<open>IsPlain()\<close>.\<close>

record InlineBlock =
  Text :: string
  IsPlain :: bool

text \<open>A \<open>notionapi.Block\<close> as an element of a page's content: the fields page.go reads.
  \<open>DisplaySource\<close> is \<open>block.FormatEmbed.DisplaySource\<close>.\<close>

record Block =
  Type :: BlockType
  ID :: string
  InlineContent :: "InlineBlock list"
  DisplaySource :: string

text \<open>
  A \<open>notionapi.Page\<close> with the fields of its root block that page.go uses:
  \<open>Root_Content\<close> is \<open>page.Root.Content\<close>, a slice of pointers (\<open>None\<close> is nil), and
  \<open>Root_ContentIDs\<close> is \<open>page.Root.ContentIDs\<close>.
\<close>

record NotionPage =
  ID :: string
  Root_Type :: BlockType
  Root_Title :: string
  Root_Content :: "Block option list"
  Root_ContentIDs :: "string list"

record MetaValue =
  Key :: string
  Value :: string

text \<open>Modelled from the spec: the struct \<open>EmbeddedSourceFile\<close> is declared outside
  page.go; its fields are the ones the spec lists and page.go assigns.\<close>

record EmbeddedSourceFile =
  EmbedURL :: string
  FileName :: string
  Path :: string
  Lines :: "string list"
  FileExists :: bool

text \<open>The struct \<open>Page\<close>, without the fields that hold other pages (\<open>Parent\<close>, \<open>Pages\<close>,
  \<open>Siblings\<close> with \<open>IsCurrent\<close>) and the rendered body, which the functions below do not
  touch. \<open>SourceFiles\<close> holds pointers to the files \<open>extractEmbeddedSourceFiles\<close> makes,
  none of them nil; the list holds the files themselves.\<close>

record Page =
  NotionPage :: NotionPage
  Title :: string
  NotionID :: string
  ID :: string
  StackOverflowID :: string
  Search :: "string list"
  SourceFiles :: "EmbeddedSourceFile list"

section \<open>removeBlocks\<close>

text \<open>A Go \<open>map[int]bool\<close>; reading a key that is absent gives \<open>false\<close>.\<close>

type_synonym removal = "(int, bool) mapping"

definition lookup :: "removal \<Rightarrow> int \<Rightarrow> bool" where
  "lookup toRemove i = (case Mapping.lookup toRemove i of None \<Rightarrow> False | Some b \<Rightarrow> b)"

text \<open>
  The loop \<open>for i, el := range blocks { if toRemove[i] { continue }; blocks[n] = el; n++ }\<close>
  over the remaining indices: it reads element \<open>i\<close> of the array as it is now and
  writes it at position \<open>n\<close> of the same array.
\<close>

fun compact :: "removal \<Rightarrow> nat list \<Rightarrow> 'a list \<Rightarrow> nat \<Rightarrow> 'a list \<times> nat" where
  "compact toRemove [] arr n = (arr, n)"
| "compact toRemove (i # is) arr n =
     (let el = arr ! i in
      if lookup toRemove (int i) then compact toRemove is arr n
      else compact toRemove is (arr[n := el]) (Suc n))"

text \<open>\<open>removeBlocks\<close> (page.go, lines 117 to 143). The block slice is cut to its first
  \<open>n\<close> elements; the identifier slice is assigned back whole.\<close>

definition removeBlocks :: "NotionPage \<Rightarrow> removal \<Rightarrow> NotionPage" where
  "removeBlocks page toRemove =
     (if Mapping.is_empty toRemove then page
      else
        let blocks = Root_Content page;
            (blocks', n) = compact toRemove [0..<length blocks] blocks 0;
            page = page\<lparr>Root_Content := take n blocks'\<rparr>;
            ids = Root_ContentIDs page;
            (ids', n) = compact toRemove [0..<length ids] ids 0
        in page\<lparr>Root_ContentIDs := ids'\<rparr>)"

text \<open>The elements a removal set keeps, in their order.\<close>

definition kept :: "removal \<Rightarrow> 'a list \<Rightarrow> 'a list" where
  "kept toRemove xs = nths xs {i. \<not> lookup toRemove (int i)}"

section \<open>Meta extraction\<close>

text \<open>\<open>extractMetaValueFromBlock\<close> (page.go, lines 86 to 114). The block is a pointer; the
  result \<open>Inr None\<close> is the source's \<open>return nil\<close>. \<open>unicodeLower\<close> is the parameter of
  \<open>ToLower\<close>.\<close>

definition extractMetaValueFromBlock ::
  "(string \<Rightarrow> string) \<Rightarrow> Block option \<Rightarrow> error + MetaValue option" where
  "extractMetaValueFromBlock unicodeLower block =
     (case block of
        None \<Rightarrow> Inl NilDeref
      | Some b \<Rightarrow>
          if Type b \<noteq> BlockText then Inr None
          else if length (InlineContent b) \<noteq> 1 then Inr None
          else
            let inline = InlineContent b ! 0 in
            if \<not> IsPlain inline then Inr None
            else
              let s = TrimSpace (Text inline) in
              if length s < 4 then Inr None
              else if s ! 0 \<noteq> CHR ''$'' then Inr None
              else
                let parts = SplitN2 s (CHR '':'') in
                if length parts \<noteq> 2 then Inr None
                else
                  let key = ToLower unicodeLower (TrimSpace (parts ! 0));
                      val = TrimSpace (parts ! 1)
                  in Inr (Some \<lparr>Key = key, Value = val\<rparr>))"

text \<open>The meta-value blocks: the blocks for which \<open>extractMetaValueFromBlock\<close> returns a
  meta-value.\<close>

definition isMeta :: "(string \<Rightarrow> string) \<Rightarrow> Block option \<Rightarrow> bool" where
  "isMeta unicodeLower block =
     (case extractMetaValueFromBlock unicodeLower block of Inr (Some mv) \<Rightarrow> True | _ \<Rightarrow> False)"

text \<open>The \<open>switch mv.Key\<close> of \<open>extractMeta\<close> (lines 158 to 172). \<open>normalizeID\<close> is
  declared outside page.go and is a parameter. The loop over \<open>p.Search\<close> replaces each
  entry by its trimmed text. The message of the panic is the format
  \<open>unknown key '%s' in page with id %s\<close> filled in (\<open>CHR 0x27\<close> is the apostrophe).\<close>

definition applyMetaValue :: "(string \<Rightarrow> string) \<Rightarrow> Page \<Rightarrow> MetaValue \<Rightarrow> error + Page" where
  "applyMetaValue normalizeID p mv =
     (if Key mv = ''$id'' then Inr (p\<lparr>Page.ID := Value mv\<rparr>)
      else if Key mv = ''$soid'' then Inr (p\<lparr>StackOverflowID := Value mv\<rparr>)
      else if Key mv = ''$search'' then
        Inr (p\<lparr>Search := map TrimSpace (Split (Value mv) (CHR '',''))\<rparr>)
      else if Key mv = ''$score'' then Inr p
      else
        (case panicIf True
                (''unknown key '' @ [CHR 0x27] @ Key mv @ [CHR 0x27] @ '' in page with id ''
                   @ normalizeID (NotionPage.ID (NotionPage p))) of
           Inl e \<Rightarrow> Inl e
         | Inr u \<Rightarrow> Inr p))"

text \<open>The loop of \<open>extractMeta\<close> (lines 150 to 173) over the remaining indices. The
  block is read from the slice as it is now; a meta-value block is marked for removal
  and its slot is set to nil.\<close>

fun extractMeta_loop ::
  "(string \<Rightarrow> string) \<Rightarrow> (string \<Rightarrow> string) \<Rightarrow> nat list \<Rightarrow> Page \<times> removal \<Rightarrow>
     error + Page \<times> removal" where
  "extractMeta_loop unicodeLower normalizeID [] st = Inr st"
| "extractMeta_loop unicodeLower normalizeID (idx # rest) (p, toRemove) =
     (let page = NotionPage p;
          block = Root_Content page ! idx
      in (case extractMetaValueFromBlock unicodeLower block of
            Inl e \<Rightarrow> Inl e
          | Inr None \<Rightarrow> extractMeta_loop unicodeLower normalizeID rest (p, toRemove)
          | Inr (Some mv) \<Rightarrow>
              (let toRemove = Mapping.update (int idx) True toRemove;
                   p = p\<lparr>NotionPage := page\<lparr>Root_Content := (Root_Content page)[idx := None]\<rparr>\<rparr>
               in (case applyMetaValue normalizeID p mv of
                     Inl e \<Rightarrow> Inl e
                   | Inr p \<Rightarrow> extractMeta_loop unicodeLower normalizeID rest (p, toRemove)))))"

text \<open>\<open>extractMeta\<close> (lines 147 to 175).\<close>

definition extractMeta ::
  "(string \<Rightarrow> string) \<Rightarrow> (string \<Rightarrow> string) \<Rightarrow> Page \<Rightarrow> error + Page" where
  "extractMeta unicodeLower normalizeID p =
     (case extractMeta_loop unicodeLower normalizeID
             [0..<length (Root_Content (NotionPage p))] (p, Mapping.empty) of
        Inl e \<Rightarrow> Inl e
      | Inr (p, toRemove) \<Rightarrow> Inr (p\<lparr>NotionPage := removeBlocks (NotionPage p) toRemove\<rparr>))"

text \<open>Predicates on blocks for the statements about \<open>extractMeta\<close>: the keys the
  switch knows; the blocks the loop passes without a panic; the blocks that set
  \<open>Search\<close>.\<close>

definition knownKey :: "string \<Rightarrow> bool" where
  "knownKey key = (key = ''$id'' \<or> key = ''$soid'' \<or> key = ''$search'' \<or> key = ''$score'')"

definition accepted :: "(string \<Rightarrow> string) \<Rightarrow> Block option \<Rightarrow> bool" where
  "accepted unicodeLower block =
     (case extractMetaValueFromBlock unicodeLower block of
        Inl e \<Rightarrow> False
      | Inr None \<Rightarrow> True
      | Inr (Some mv) \<Rightarrow> knownKey (Key mv))"

definition isSearch :: "(string \<Rightarrow> string) \<Rightarrow> Block option \<Rightarrow> bool" where
  "isSearch unicodeLower block =
     (case extractMetaValueFromBlock unicodeLower block of
        Inr (Some mv) \<Rightarrow> Key mv = ''$search''
      | _ \<Rightarrow> False)"

text \<open>
  The directive predicate as the specification words it (section 4.1, conditions (a) to
  (d)): a plain-text block with exactly one inline run, the run unformatted, whose
  trimmed text has length at least 4 and starts with \<open>$\<close>. It does not ask for a colon.
  \<open>trimmedText\<close> is the trimmed text of the first inline run of a block.
\<close>

definition trimmedText :: "Block \<Rightarrow> string" where
  "trimmedText b = TrimSpace (Text (hd (InlineContent b)))"

definition specDirective :: "Block option \<Rightarrow> bool" where
  "specDirective block =
     (case block of
        None \<Rightarrow> False
      | Some b \<Rightarrow>
          Type b = BlockText \<and> length (InlineContent b) = 1 \<and> IsPlain (hd (InlineContent b)) \<and>
          4 \<le> length (trimmedText b) \<and> hd (trimmedText b) = CHR ''$'')"

text \<open>The directives with a colon: the same conditions, and a colon in the trimmed
  text.\<close>

definition colonDirective :: "Block option \<Rightarrow> bool" where
  "colonDirective block =
     (case block of
        None \<Rightarrow> False
      | Some b \<Rightarrow> specDirective (Some b) \<and> CHR '':'' \<in> set (trimmedText b))"

text \<open>The blocks of the claim about a missing colon: text blocks with one plain inline
  run whose trimmed text has at least 4 bytes, starts with \<open>$\<close> and has no colon.\<close>

definition noColonDirective :: "Block \<Rightarrow> bool" where
  "noColonDirective b =
     (Type b = BlockText \<and> length (InlineContent b) = 1 \<and> IsPlain (hd (InlineContent b)) \<and>
      (let s = TrimSpace (Text (hd (InlineContent b)))
       in 4 \<le> length s \<and> hd s = CHR ''$'' \<and> CHR '':'' \<notin> set s))"

section \<open>Sub-page extraction\<close>

text \<open>The loop of \<open>getSubPages\<close> (lines 63 to 72); \<open>idx\<close> is the index of the first block
  of the list. The map \<open>pageIDToPage\<close> holds pointers: a key that is absent reads as nil.
  The message of the panic is the format \<open>no sub page for id %s\<close> filled in.\<close>

fun getSubPages_loop ::
  "(string \<Rightarrow> string) \<Rightarrow> (string \<rightharpoonup> NotionPage) \<Rightarrow> nat \<Rightarrow> Block option list \<Rightarrow>
     NotionPage option list \<times> removal \<Rightarrow> error + NotionPage option list \<times> removal" where
  "getSubPages_loop normalizeID pageIDToPage idx [] st = Inr st"
| "getSubPages_loop normalizeID pageIDToPage idx (block # rest) (res, toRemove) =
     (case block of
        None \<Rightarrow> Inl NilDeref
      | Some b \<Rightarrow>
          if Type b \<noteq> BlockPage then
            getSubPages_loop normalizeID pageIDToPage (Suc idx) rest (res, toRemove)
          else
            (let toRemove = Mapping.update (int idx) True toRemove;
                 pid = normalizeID (Block.ID b);
                 subPage = pageIDToPage pid
             in (case panicIf (subPage = None) (''no sub page for id '' @ pid) of
                   Inl e \<Rightarrow> Inl e
                 | Inr u \<Rightarrow>
                     getSubPages_loop normalizeID pageIDToPage (Suc idx) rest
                       (res @ [subPage], toRemove))))"

text \<open>\<open>getSubPages\<close> (lines 60 to 75): the sub-pages and the page after the removal.\<close>

definition getSubPages ::
  "(string \<Rightarrow> string) \<Rightarrow> NotionPage \<Rightarrow> (string \<rightharpoonup> NotionPage) \<Rightarrow>
     error + NotionPage option list \<times> NotionPage" where
  "getSubPages normalizeID page pageIDToPage =
     (case getSubPages_loop normalizeID pageIDToPage 0 (Root_Content page) ([], Mapping.empty) of
        Inl e \<Rightarrow> Inl e
      | Inr (res, toRemove) \<Rightarrow> Inr (res, removeBlocks page toRemove))"

text \<open>A block that does not stop the loop of \<open>getSubPages\<close>: it is not a page link, or
  its normalized identifier has an entry in the mapping.\<close>

definition mapped :: "(string \<Rightarrow> string) \<Rightarrow> (string \<rightharpoonup> NotionPage) \<Rightarrow> Block \<Rightarrow> bool" where
  "mapped normalizeID pageIDToPage b =
     (if Type b = BlockPage then pageIDToPage (normalizeID (Block.ID b)) \<noteq> None else True)"

section \<open>Looking up a source file\<close>

text \<open>The loop of \<open>findSourceFileForEmbedURL\<close> (lines 47 to 54) over the remaining files;
  \<open>None\<close> is the source's \<open>return nil\<close>.\<close>

fun findSourceFile_loop :: "EmbeddedSourceFile list \<Rightarrow> string \<Rightarrow> EmbeddedSourceFile option" where
  "findSourceFile_loop [] uri = None"
| "findSourceFile_loop (f # fs) uri =
     (if EmbedURL f = uri then (if FileExists f then Some f else None)
      else findSourceFile_loop fs uri)"

text \<open>\<open>findSourceFileForEmbedURL\<close> (lines 46 to 56).\<close>

definition findSourceFileForEmbedURL :: "Page \<Rightarrow> string \<Rightarrow> EmbeddedSourceFile option" where
  "findSourceFileForEmbedURL page uri = findSourceFile_loop (SourceFiles page) uri"

section \<open>URLs\<close>

text \<open>
  A model of \<open>Parse\<close>, \<open>Query\<close> and \<open>Get\<close> of Go's package \<open>net/url\<close>, which
  \<open>gitoembedToRelativePath\<close> calls: the scheme, the query and the fragment are split
  off, the authority is checked and its host kept, and the path is unescaped. An error
  of the package is \<open>Inl\<close> with its message. The scheme \<open>getScheme\<close> returns has ASCII
  letters, digits, \<open>+\<close>, \<open>-\<close> and \<open>.\<close> only, so \<open>strings.ToLower\<close> of it is \<open>asciiLower\<close>. A
  host in brackets is not checked to be an IP literal (newer versions of the package
  do). The user information of a URL is checked
  and not stored (page.go does not read it); a URL with a control byte is an error, and
  \<open>ParseQuery\<close> drops a pair that contains a semicolon or a malformed escape, as the
  package does since Go 1.17.
\<close>

datatype encoding = encodePath | encodeHost | encodeZone | encodeUserPassword
  | encodeQueryComponent | encodeFragment

record URL =
  Scheme :: string
  Opaque :: string
  Host :: string
  Path :: string
  ForceQuery :: bool
  RawQuery :: string
  Fragment :: string

definition emptyURL :: URL where
  "emptyURL = \<lparr>Scheme = [], Opaque = [], Host = [], Path = [], ForceQuery = False,
     RawQuery = [], Fragment = []\<rparr>"

definition isLetter :: "char \<Rightarrow> bool" where
  "isLetter c = (97 \<le> byte c \<and> byte c \<le> 122 \<or> 65 \<le> byte c \<and> byte c \<le> 90)"

definition isDigit :: "char \<Rightarrow> bool" where
  "isDigit c = (48 \<le> byte c \<and> byte c \<le> 57)"

definition ishex :: "char \<Rightarrow> bool" where
  "ishex c = (isDigit c \<or> 97 \<le> byte c \<and> byte c \<le> 102 \<or> 65 \<le> byte c \<and> byte c \<le> 70)"

definition unhex :: "char \<Rightarrow> nat" where
  "unhex c =
     (if isDigit c then byte c - 48
      else if 97 \<le> byte c \<and> byte c \<le> 102 then byte c - 97 + 10
      else if 65 \<le> byte c \<and> byte c \<le> 70 then byte c - 65 + 10
      else 0)"

definition shouldEscapeHost :: "char \<Rightarrow> bool" where
  "shouldEscapeHost c =
     (\<not> (isLetter c \<or> isDigit c \<or> c \<in> set ''!$&()*+,;=:[]<>'' \<or> c = CHR 0x22 \<or> c = CHR 0x27
         \<or> c \<in> set ''-_.~''))"

fun unescape :: "encoding \<Rightarrow> string \<Rightarrow> string + string" where
  "unescape mode [] = Inr []"
| "unescape mode (c # s) =
     (if c = CHR ''%'' then
        (case s of
           h1 # h2 # rest \<Rightarrow>
             let v = char_of (unhex h1 * 16 + unhex h2) in
             if \<not> (ishex h1 \<and> ishex h2) then Inl (''invalid URL escape'')
             else if mode = encodeHost \<and> unhex h1 < 8 \<and> [h1, h2] \<noteq> ''25'' then
               Inl (''invalid URL escape'')
             else if mode = encodeZone \<and> [h1, h2] \<noteq> ''25'' \<and> v \<noteq> CHR '' ''
                     \<and> shouldEscapeHost v then
               Inl (''invalid URL escape'')
             else (case unescape mode rest of Inl e \<Rightarrow> Inl e | Inr t \<Rightarrow> Inr (v # t))
         | _ \<Rightarrow> Inl (''invalid URL escape''))
      else if (mode = encodeHost \<or> mode = encodeZone) \<and> byte c < 128 \<and> shouldEscapeHost c then
        Inl (''invalid character in host name'')
      else
        (case unescape mode s of
           Inl e \<Rightarrow> Inl e
         | Inr t \<Rightarrow> Inr ((if c = CHR ''+'' \<and> mode = encodeQueryComponent then CHR '' '' else c) # t)))"


definition stringContainsCTLByte :: "string \<Rightarrow> bool" where
  "stringContainsCTLByte s = list_ex (\<lambda>c. byte c < 32 \<or> byte c = 127) s"

fun getScheme_loop :: "string \<Rightarrow> nat \<Rightarrow> string \<Rightarrow> string + string \<times> string" where
  "getScheme_loop rawURL i [] = Inr ([], rawURL)"
| "getScheme_loop rawURL i (c # cs) =
     (if isLetter c then getScheme_loop rawURL (Suc i) cs
      else if isDigit c \<or> c = CHR ''+'' \<or> c = CHR ''-'' \<or> c = CHR ''.'' then
        (if i = 0 then Inr ([], rawURL) else getScheme_loop rawURL (Suc i) cs)
      else if c = CHR '':'' then
        (if i = 0 then Inl ''missing protocol scheme'' else Inr (take i rawURL, cs))
      else Inr ([], rawURL))"

definition getScheme :: "string \<Rightarrow> string + string \<times> string" where
  "getScheme rawURL = getScheme_loop rawURL 0 rawURL"

definition validOptionalPort :: "string \<Rightarrow> bool" where
  "validOptionalPort port =
     (case port of
        [] \<Rightarrow> True
      | c # digits \<Rightarrow> c = CHR '':'' \<and> list_all isDigit digits)"

definition validUserinfo :: "string \<Rightarrow> bool" where
  "validUserinfo s =
     list_all (\<lambda>c. isLetter c \<or> isDigit c \<or> c \<in> set ''-._:~!$&()*+,;=%@'' \<or> c = CHR 0x27) s"

text \<open>The text before and after the last occurrence of a byte, when there is one.\<close>

definition cutLast :: "string \<Rightarrow> char \<Rightarrow> (string \<times> string) option" where
  "cutLast s sep =
     (if sep \<in> set s
      then Some (rev (drop 1 (dropWhile (\<lambda>c. c \<noteq> sep) (rev s))),
                 rev (takeWhile (\<lambda>c. c \<noteq> sep) (rev s)))
      else None)"

text \<open>\<open>strings.Index(s, sub)\<close>: the position of the first occurrence of \<open>sub\<close>.\<close>

fun Index_from :: "string \<Rightarrow> nat \<Rightarrow> string \<Rightarrow> nat option" where
  "Index_from sub i [] = (if sub = [] then Some i else None)"
| "Index_from sub i (c # s) =
     (if HasPrefix (c # s) sub then Some i else Index_from sub (Suc i) s)"

definition Index :: "string \<Rightarrow> string \<Rightarrow> nat option" where
  "Index s sub = Index_from sub 0 s"

definition parseHost :: "string \<Rightarrow> string + string" where
  "parseHost host =
     (if HasPrefix host ''['' then
        (case cutLast host (CHR '']'') of
           None \<Rightarrow> Inl ''missing ] in host''
         | Some (lit, colonPort) \<Rightarrow>
             if \<not> validOptionalPort colonPort then Inl ''invalid port after host''
             else
               (case Index lit ''%25'' of
                  None \<Rightarrow> unescape encodeHost host
                | Some zone \<Rightarrow>
                    (case unescape encodeHost (take zone host) of
                       Inl e \<Rightarrow> Inl e
                     | Inr host1 \<Rightarrow>
                         (case unescape encodeZone (drop zone lit) of
                            Inl e \<Rightarrow> Inl e
                          | Inr host2 \<Rightarrow>
                              (case unescape encodeHost (drop (length lit) host) of
                                 Inl e \<Rightarrow> Inl e
                               | Inr host3 \<Rightarrow> Inr (host1 @ host2 @ host3))))))
      else
        (case cutLast host (CHR '':'') of
           None \<Rightarrow> unescape encodeHost host
         | Some (name, port) \<Rightarrow>
             if \<not> validOptionalPort (CHR '':'' # port) then Inl ''invalid port after host''
             else unescape encodeHost host))"

definition parseAuthority :: "string \<Rightarrow> string + string" where
  "parseAuthority authority =
     (case cutLast authority (CHR ''@'') of
        None \<Rightarrow> parseHost authority
      | Some (userinfo, hostport) \<Rightarrow>
          (case parseHost hostport of
             Inl e \<Rightarrow> Inl e
           | Inr host \<Rightarrow>
               if \<not> validUserinfo userinfo then Inl ''net/url: invalid userinfo''
               else
                 (case Cut userinfo (CHR '':'') of (username, password, found) \<Rightarrow>
                    (case unescape encodeUserPassword username of
                       Inl e \<Rightarrow> Inl e
                     | Inr u \<Rightarrow>
                         (case unescape encodeUserPassword password of
                            Inl e \<Rightarrow> Inl e
                          | Inr pw \<Rightarrow> Inr host)))))"

definition setPath :: "URL \<Rightarrow> string \<Rightarrow> string + URL" where
  "setPath url p =
     (case unescape encodePath p of
        Inl e \<Rightarrow> Inl e
      | Inr path \<Rightarrow> Inr (url\<lparr>URL.Path := path\<rparr>))"

definition parse :: "string \<Rightarrow> string + URL" where
  "parse rawURL =
     (if stringContainsCTLByte rawURL then Inl ''net/url: invalid control character in URL''
      else if rawURL = ''*'' then Inr (emptyURL\<lparr>URL.Path := ''*''\<rparr>)
      else
        (case getScheme rawURL of
           Inl e \<Rightarrow> Inl e
         | Inr (scheme, rest) \<Rightarrow>
             let url = emptyURL\<lparr>Scheme := asciiLower scheme\<rparr>;
                 (rest, url) =
                   (if rest \<noteq> [] \<and> last rest = CHR ''?'' \<and> count_list rest (CHR ''?'') = 1
                    then (butlast rest, url\<lparr>ForceQuery := True\<rparr>)
                    else (case Cut rest (CHR ''?'') of (before, after, found) \<Rightarrow>
                            (before, url\<lparr>RawQuery := after\<rparr>)))
             in
               if \<not> HasPrefix rest ''/'' \<and> Scheme url \<noteq> [] then Inr (url\<lparr>Opaque := rest\<rparr>)
               else if \<not> HasPrefix rest ''/'' \<and> CHR '':'' \<in> set (fst (Cut rest (CHR ''/''))) then
                 Inl ''first path segment in URL cannot contain colon''
               else if HasPrefix rest ''//'' \<and> \<not> (Scheme url = [] \<and> HasPrefix rest ''///'') then
                 (let authority = takeWhile (\<lambda>c. c \<noteq> CHR ''/'') (drop 2 rest);
                      rest = dropWhile (\<lambda>c. c \<noteq> CHR ''/'') (drop 2 rest)
                  in case parseAuthority authority of
                       Inl e \<Rightarrow> Inl e
                     | Inr host \<Rightarrow> setPath (url\<lparr>Host := host\<rparr>) rest)
               else setPath url rest))"

definition Parse :: "string \<Rightarrow> string + URL" where
  "Parse rawURL =
     (case Cut rawURL (CHR ''#'') of (u, frag, found) \<Rightarrow>
        (case parse u of
           Inl e \<Rightarrow> Inl e
         | Inr url \<Rightarrow>
             if frag = [] then Inr url
             else
               (case unescape encodeFragment frag of
                  Inl e \<Rightarrow> Inl e
                | Inr f \<Rightarrow> Inr (url\<lparr>Fragment := f\<rparr>))))"

definition queryPair :: "string \<Rightarrow> (string \<times> string) option" where
  "queryPair seg =
     (if CHR '';'' \<in> set seg then None
      else if seg = [] then None
      else
        (case Cut seg (CHR ''='') of (key, val, found) \<Rightarrow>
           (case unescape encodeQueryComponent key of
              Inl e \<Rightarrow> None
            | Inr k \<Rightarrow>
                (case unescape encodeQueryComponent val of
                   Inl e \<Rightarrow> None
                 | Inr v \<Rightarrow> Some (k, v)))))"

definition ParseQuery :: "string \<Rightarrow> (string \<times> string) list" where
  "ParseQuery query = List.map_filter queryPair (Split query (CHR ''&''))"

definition Query_Get :: "URL \<Rightarrow> string \<Rightarrow> string" where
  "Query_Get url key = (case map_of (ParseQuery (RawQuery url)) key of None \<Rightarrow> [] | Some v \<Rightarrow> v)"

section \<open>Embedded source files\<close>

text \<open>\<open>gitoembedToRelativePath\<close> (page.go, lines 181 to 214). The error of the second
  \<open>url.Parse\<close> is not looked at: when it fails, \<open>parsed\<close> is nil and \<open>parsed.Host\<close> is
  read through it.\<close>

definition gitoembedToRelativePath :: "string \<Rightarrow> error + string" where
  "gitoembedToRelativePath uri =
     (case Parse uri of
        Inl err \<Rightarrow> Inr []
      | Inr parsed \<Rightarrow>
          if Host parsed \<noteq> ''www.onlinetool.io'' \<and> Host parsed \<noteq> ''onlinetool.io'' then Inr []
          else
            let path = URL.Path parsed in
            if path \<noteq> ''/gitoembed/widget'' then Inr []
            else
              let uri = Query_Get parsed ''url'' in
              (case Parse uri of
                 Inl err \<Rightarrow> Inl NilDeref
               | Inr parsed \<Rightarrow>
                   if Host parsed \<noteq> ''github.com'' then Inr []
                   else
                     let path = TrimPrefix (URL.Path parsed) ''/essentialbooks/books/'' in
                     if path = URL.Path parsed then Inr []
                     else
                       let path = TrimPrefix path ''blob/'';
                           path = TrimPrefix path ''master/'';
                           path = TrimPrefix path ''notion/''
                       in Inr path))"

text \<open>
  What \<open>extractEmbeddedSourceFiles\<close> takes from outside page.go: the result of
  \<open>os.Getwd()\<close> and of \<open>readFilteredSourceFile\<close> (each a value and an error, \<open>None\<close> for
  nil), and the functions \<open>filepath.Base\<close> and \<open>filepath.Join\<close>.
\<close>

record Env =
  Getwd :: "string \<times> string option"
  readFilteredSourceFile :: "string \<Rightarrow> string list \<times> string option"
  filepath_Base :: "string \<Rightarrow> string"
  filepath_Join :: "string \<Rightarrow> string \<Rightarrow> string"

text \<open>Modelled from the spec: \<open>panicIfErr\<close> is declared outside page.go; it is a fatal
  error carrying the error's text when the error is not nil.\<close>

definition panicIfErr :: "string option \<Rightarrow> error + unit" where
  "panicIfErr err = (case err of None \<Rightarrow> Inr () | Some msg \<Rightarrow> Inl (Panic msg))"

definition parseFailureLine :: "string \<Rightarrow> string" where
  "parseFailureLine uri = ''Couldn't parse embed uri '' @ [CHR 0x27] @ uri @ [CHR 0x27, CHR 0x0A]"

definition readFailureLine :: "string \<Rightarrow> string \<Rightarrow> string \<Rightarrow> string" where
  "readFailureLine path uri err =
     ''Failed to read '' @ [CHR 0x27] @ path @ [CHR 0x27] @ '' extracted from '' @ [CHR 0x27] @ uri
       @ [CHR 0x27] @ '', error: '' @ err @ [CHR 0x0A]"

text \<open>The body of the loop of \<open>extractEmbeddedSourceFiles\<close> for one embed block (lines 224
  to 242): the file as it is when the iteration ends, and the lines printed. The source
  appends the pointer \<open>f\<close> to \<open>p.SourceFiles\<close> first and fills the file in afterwards.\<close>

definition embedSourceFile :: "Env \<Rightarrow> string \<Rightarrow> string \<Rightarrow> error + EmbeddedSourceFile \<times> string list" where
  "embedSourceFile env wd uri =
     (let f = \<lparr>EmbedURL = uri, FileName = [], Path = [], Lines = [], FileExists = False\<rparr>
      in (case gitoembedToRelativePath uri of
            Inl e \<Rightarrow> Inl e
          | Inr relativePath \<Rightarrow>
              if relativePath = [] then Inr (f, [parseFailureLine uri])
              else
                (let f = f\<lparr>FileName := filepath_Base env relativePath\<rparr>;
                     f = f\<lparr>EmbeddedSourceFile.Path := filepath_Join env wd relativePath\<rparr>;
                     (lines, err) = readFilteredSourceFile env (EmbeddedSourceFile.Path f);
                     f = f\<lparr>Lines := lines\<rparr>
                 in (case err of
                       Some msg \<Rightarrow> Inr (f, [readFailureLine (EmbeddedSourceFile.Path f) uri msg])
                     | None \<Rightarrow> Inr (f\<lparr>FileExists := True\<rparr>, [])))))"

text \<open>The loop of \<open>extractEmbeddedSourceFiles\<close> (lines 220 to 243) over the remaining
  blocks, with the lines printed so far.\<close>

fun extractEmbeddedSourceFiles_loop ::
  "Env \<Rightarrow> string \<Rightarrow> Block option list \<Rightarrow> Page \<times> string list \<Rightarrow> error + Page \<times> string list" where
  "extractEmbeddedSourceFiles_loop env wd [] st = Inr st"
| "extractEmbeddedSourceFiles_loop env wd (block # rest) (p, out) =
     (case block of
        None \<Rightarrow> Inl NilDeref
      | Some b \<Rightarrow>
          if Type b \<noteq> BlockEmbed then extractEmbeddedSourceFiles_loop env wd rest (p, out)
          else
            (let uri = DisplaySource b in
               (case embedSourceFile env wd uri of
                  Inl e \<Rightarrow> Inl e
                | Inr (f, printed) \<Rightarrow>
                    extractEmbeddedSourceFiles_loop env wd rest
                      (p\<lparr>SourceFiles := SourceFiles p @ [f]\<rparr>, out @ printed))))"

text \<open>\<open>extractEmbeddedSourceFiles\<close> (lines 216 to 244): the page and the lines printed.\<close>

definition extractEmbeddedSourceFiles :: "Env \<Rightarrow> Page \<Rightarrow> error + Page \<times> string list" where
  "extractEmbeddedSourceFiles env p =
     (case Getwd env of (wd, err) \<Rightarrow>
        (case panicIfErr err of
           Inl e \<Rightarrow> Inl e
         | Inr u \<Rightarrow>
             extractEmbeddedSourceFiles_loop env wd (Root_Content (NotionPage p)) (p, [])))"

text \<open>The embed blocks of a block sequence, in their order.\<close>

definition embedBlocks :: "Block option list \<Rightarrow> Block list" where
  "embedBlocks blocks =
     List.map_filter (\<lambda>block. case block of
        None \<Rightarrow> None
      | Some b \<Rightarrow> if Type b = BlockEmbed then Some b else None) blocks"

section \<open>Example values\<close>

text \<open>Blocks and pages for the concrete inputs below. \<open>newPage\<close> is the page
  \<open>bookPageFromNotionPage\<close> starts from (lines 247 to 249).\<close>

definition textBlock :: "string \<Rightarrow> Block" where
  "textBlock t = \<lparr>Type = BlockText, ID = [], InlineContent = [\<lparr>Text = t, IsPlain = True\<rparr>],
     DisplaySource = []\<rparr>"

definition pageLinkBlock :: "string \<Rightarrow> Block" where
  "pageLinkBlock bid = \<lparr>Type = BlockPage, ID = bid, InlineContent = [], DisplaySource = []\<rparr>"

definition embedBlock :: "string \<Rightarrow> Block" where
  "embedBlock uri = \<lparr>Type = BlockEmbed, ID = [], InlineContent = [], DisplaySource = uri\<rparr>"

definition notionPage :: "string \<Rightarrow> Block option list \<Rightarrow> string list \<Rightarrow> NotionPage" where
  "notionPage pid blocks ids = \<lparr>NotionPage.ID = pid, Root_Type = BlockPage, Root_Title = [],
     Root_Content = blocks, Root_ContentIDs = ids\<rparr>"

definition newPage :: "NotionPage \<Rightarrow> Page" where
  "newPage page = \<lparr>NotionPage = page, Title = Root_Title page, NotionID = [], ID = [],
     StackOverflowID = [], Search = [], SourceFiles = []\<rparr>"

text \<open>A function for the parameter \<open>unicodeLower\<close> in the concrete inputs. Their texts
  are ASCII, so \<open>ToLower\<close> never calls it.\<close>

definition exampleLower :: "string \<Rightarrow> string" where
  "exampleLower s = s"

text \<open>A function for \<open>normalizeID\<close> in the concrete inputs: it drops the dashes.\<close>

definition noDashID :: "string \<Rightarrow> string" where
  "noDashID s = filter (\<lambda>c. c \<noteq> CHR ''-'') s"

text \<open>An environment for the concrete inputs: the working directory is \<open>/wd\<close> and no file
  can be read.\<close>

definition exampleEnv :: Env where
  "exampleEnv = \<lparr>Getwd = (''/wd'', None),
     readFilteredSourceFile = (\<lambda>path. ([], Some ''no such file'')),
     filepath_Base = (\<lambda>path. rev (takeWhile (\<lambda>c. c \<noteq> CHR ''/'') (rev path))),
     filepath_Join = (\<lambda>dir path. dir @ ''/'' @ path)\<rparr>"

section \<open>Properties of the string functions\<close>

text \<open>\<open>Split\<close> cuts at every separator and nowhere else: the parts, each followed by the
  separator, give the string followed by the separator, and no part has a separator.\<close>

lemma split_from_join:
  "concat (map (\<lambda>x. x @ [sep]) (split_from sep cur s)) = rev cur @ s @ [sep]"
  by (induction s arbitrary: cur) simp_all

lemma split_from_no_sep:
  "sep \<notin> set cur \<Longrightarrow> \<forall>x\<in>set (split_from sep cur s). sep \<notin> set x"
proof (induction s arbitrary: cur)
  case Nil
  then show ?case by simp
next
  case (Cons c s)
  show ?case
  proof (cases "c = sep")
    case True
    with Cons.IH[of "[]"] Cons.prems show ?thesis by simp
  next
    case False
    with Cons.IH[of "c # cur"] Cons.prems show ?thesis by simp
  qed
qed

lemma Split_join: "concat (map (\<lambda>x. x @ [sep]) (Split s sep)) = s @ [sep]"
  by (simp add: Split_def split_from_join)

lemma Split_no_sep: "x \<in> set (Split s sep) \<Longrightarrow> sep \<notin> set x"
  using split_from_no_sep[of sep "[]" s] by (simp add: Split_def)

text \<open>\<open>TrimSpace\<close> gives a part of the string: what it takes off is at the two ends.\<close>

lemma TrimLeftSpace_suffix: "\<exists>a. s = a @ TrimLeftSpace s"
proof (induction s rule: TrimLeftSpace.induct)
  case (1 a b c s)
  show ?case
  proof (cases "asciiSpace a")
    case True
    with 1(1) obtain x where "b # c # s = x @ TrimLeftSpace (b # c # s)" by blast
    then have "a # b # c # s = (a # x) @ TrimLeftSpace (b # c # s)" by simp
    with True show ?thesis by (metis TrimLeftSpace.simps(1))
  next
    case False
    note na = False
    show ?thesis
    proof (cases "space2 a b")
      case True
      with 1(2) na obtain x where "c # s = x @ TrimLeftSpace (c # s)" by blast
      then have "a # b # c # s = (a # b # x) @ TrimLeftSpace (c # s)" by simp
      with True na show ?thesis by (metis TrimLeftSpace.simps(1))
    next
      case False
      note n2 = False
      show ?thesis
      proof (cases "space3 a b c")
        case True
        with 1(3) na n2 obtain x where "s = x @ TrimLeftSpace s" by blast
        then have "a # b # c # s = (a # b # c # x) @ TrimLeftSpace s" by simp
        with True na n2 show ?thesis by (metis TrimLeftSpace.simps(1))
      next
        case False
        with na n2 have "TrimLeftSpace (a # b # c # s) = a # b # c # s" by simp
        then show ?thesis by (metis append_Nil)
      qed
    qed
  qed
next
  case (2 a b)
  show ?case
  proof (cases "asciiSpace a")
    case True
    with 2 obtain x where "[b] = x @ TrimLeftSpace [b]" by blast
    then have "[a, b] = (a # x) @ TrimLeftSpace [b]" by simp
    with True show ?thesis by (metis TrimLeftSpace.simps(2))
  next
    case False
    note n1 = False
    show ?thesis
    proof (cases "space2 a b")
      case True
      with n1 have "TrimLeftSpace [a, b] = []" by simp
      then show ?thesis by simp
    next
      case False
      with n1 have "TrimLeftSpace [a, b] = [a, b]" by simp
      then show ?thesis by (metis append_Nil)
    qed
  qed
next
  case (3 a)
  show ?case
  proof (cases "asciiSpace a")
    case True
    then have "TrimLeftSpace [a] = []" by simp
    then show ?thesis by simp
  next
    case False
    then have "TrimLeftSpace [a] = [a]" by simp
    then show ?thesis by (metis append_Nil)
  qed
next
  case 4
  then show ?case by simp
qed

lemma trimRightRev_suffix: "\<exists>a. s = a @ trimRightRev s"
proof (induction s rule: trimRightRev.induct)
  case (1 c b a s)
  show ?case
  proof (cases "asciiSpace c")
    case True
    with 1(1) obtain x where "b # a # s = x @ trimRightRev (b # a # s)" by blast
    then have "c # b # a # s = (c # x) @ trimRightRev (b # a # s)" by simp
    with True show ?thesis by (metis trimRightRev.simps(1))
  next
    case False
    note nc = False
    show ?thesis
    proof (cases "space2 b c")
      case True
      with 1(2) nc obtain x where "a # s = x @ trimRightRev (a # s)" by blast
      then have "c # b # a # s = (c # b # x) @ trimRightRev (a # s)" by simp
      with True nc show ?thesis by (metis trimRightRev.simps(1))
    next
      case False
      note n2 = False
      show ?thesis
      proof (cases "space3 a b c")
        case True
        with 1(3) nc n2 obtain x where "s = x @ trimRightRev s" by blast
        then have "c # b # a # s = (c # b # a # x) @ trimRightRev s" by simp
        with True nc n2 show ?thesis by (metis trimRightRev.simps(1))
      next
        case False
        with nc n2 have "trimRightRev (c # b # a # s) = c # b # a # s" by simp
        then show ?thesis by (metis append_Nil)
      qed
    qed
  qed
next
  case (2 c b)
  show ?case
  proof (cases "asciiSpace c")
    case True
    with 2 obtain x where "[b] = x @ trimRightRev [b]" by blast
    then have "[c, b] = (c # x) @ trimRightRev [b]" by simp
    with True show ?thesis by (metis trimRightRev.simps(2))
  next
    case False
    note n1 = False
    show ?thesis
    proof (cases "space2 b c")
      case True
      with n1 have "trimRightRev [c, b] = []" by simp
      then show ?thesis by simp
    next
      case False
      with n1 have "trimRightRev [c, b] = [c, b]" by simp
      then show ?thesis by (metis append_Nil)
    qed
  qed
next
  case (3 c)
  show ?case
  proof (cases "asciiSpace c")
    case True
    then have "trimRightRev [c] = []" by simp
    then show ?thesis by simp
  next
    case False
    then have "trimRightRev [c] = [c]" by simp
    then show ?thesis by (metis append_Nil)
  qed
next
  case 4
  then show ?case by simp
qed

lemma TrimSpace_parts: "\<exists>a b. s = a @ TrimSpace s @ b"
proof -
  obtain a where a: "s = a @ TrimLeftSpace s" using TrimLeftSpace_suffix by blast
  obtain x where "rev (TrimLeftSpace s) = x @ trimRightRev (rev (TrimLeftSpace s))"
    using trimRightRev_suffix by blast
  then have "rev (rev (TrimLeftSpace s)) = rev (x @ trimRightRev (rev (TrimLeftSpace s)))"
    by simp
  then have "TrimLeftSpace s = TrimSpace s @ rev x"
    by (simp add: TrimSpace_def TrimRightSpace_def)
  with a have "s = a @ TrimSpace s @ rev x" by simp
  then show ?thesis by blast
qed

text \<open>A step of \<open>dropWhile\<close> over an appended list, and \<open>Cut\<close> at the first separator.\<close>

lemma dropWhile_append_stop:
  "\<not> P y \<Longrightarrow> dropWhile P (xs @ y # ys) = dropWhile P xs @ y # ys"
  by (induction xs) simp_all

lemma Cut_first:
  "sep \<notin> set k \<Longrightarrow> Cut (k @ sep # v) sep = (k, v, True)"
proof -
  assume k: "sep \<notin> set k"
  then have all: "\<forall>c\<in>set k. c \<noteq> sep" by blast
  have t: "takeWhile (\<lambda>c. c \<noteq> sep) (k @ sep # v) = k"
    using all by (simp add: takeWhile_tail)
  have "dropWhile (\<lambda>c. c \<noteq> sep) k = []" using all by simp
  then have d: "dropWhile (\<lambda>c. c \<noteq> sep) (k @ sep # v) = sep # v"
    using dropWhile_append_stop[where P = "\<lambda>c. c \<noteq> sep" and y = sep and xs = k and ys = v]
    by simp
  show ?thesis unfolding Cut_def t d by simp
qed

section \<open>Properties of removeBlocks\<close>

text \<open>The compaction loop, started at index \<open>k\<close> with \<open>n\<close> elements written, keeps the
  first \<open>n\<close> elements, appends the kept elements from \<open>k\<close> on, and leaves the rest of the
  array as it was.\<close>

lemma compact_from:
  "n \<le> k \<Longrightarrow> k \<le> length arr \<Longrightarrow>
   compact rm [k..<length arr] arr n =
     (let S = nths (drop k arr) {j. \<not> lookup rm (int (k + j))}
      in (take n arr @ S @ drop (n + length S) arr, n + length S))"
proof (induction "length arr - k" arbitrary: k arr n)
  case 0
  then show ?case by simp
next
  case (Suc d)
  then have k: "k < length arr" by simp
  have upt: "[k..<length arr] = k # [Suc k..<length arr]" using k by (simp add: upt_rec)
  have dr: "drop k arr = arr ! k # drop (Suc k) arr" using k by (simp add: Cons_nth_drop_Suc)
  show ?case
  proof (cases "lookup rm (int k)")
    case True
    have "compact rm [k..<length arr] arr n = compact rm [Suc k..<length arr] arr n"
      using True upt by simp
    also have "\<dots> = (let S = nths (drop (Suc k) arr) {j. \<not> lookup rm (int (Suc k + j))}
      in (take n arr @ S @ drop (n + length S) arr, n + length S))"
      using Suc.hyps(1)[of arr "Suc k" n] Suc.hyps(2) Suc.prems k by simp
    finally show ?thesis using True dr by (simp add: nths_Cons Let_def add.commute add.left_commute)
  next
    case False
    let ?arr = "arr[n := arr ! k]"
    have len: "length ?arr = length arr" by simp
    have "compact rm [k..<length arr] arr n = compact rm [Suc k..<length ?arr] ?arr (Suc n)"
      using False upt by simp
    also have "\<dots> = (let S = nths (drop (Suc k) ?arr) {j. \<not> lookup rm (int (Suc k + j))}
      in (take (Suc n) ?arr @ S @ drop (Suc n + length S) ?arr, Suc n + length S))"
      using Suc.hyps(1)[of ?arr "Suc k" "Suc n"] Suc.hyps(2) Suc.prems k by simp
    finally have st: "compact rm [k..<length arr] arr n = (let S = nths (drop (Suc k) ?arr) {j. \<not> lookup rm (int (Suc k + j))}
      in (take (Suc n) ?arr @ S @ drop (Suc n + length S) ?arr, Suc n + length S))" .
    have d1: "drop (Suc k) ?arr = drop (Suc k) arr" using Suc.prems by simp
    have t1: "take (Suc n) ?arr = take n arr @ [arr ! k]"
      using Suc.prems k by (simp add: take_Suc_conv_app_nth)
    have d2: "\<And>m. drop (Suc n + m) ?arr = drop (Suc n + m) arr" by simp
    show ?thesis unfolding st d1 t1 d2 using False dr by (simp add: nths_Cons Let_def add.commute add.left_commute)
  qed
qed

lemma compact_all:
  "compact rm [0..<length xs] xs 0 = (kept rm xs @ drop (length (kept rm xs)) xs, length (kept rm xs))"
  using compact_from[of 0 0 xs rm] by (simp add: kept_def Let_def)

lemma length_kept_le: "length (kept rm xs) \<le> length xs"
  by (simp add: kept_def length_nths) (metis (no_types, lifting) card_lessThan card_mono finite_lessThan lessThan_iff mem_Collect_eq subsetI)

lemma lookup_is_empty: "Mapping.is_empty rm \<Longrightarrow> lookup rm k = False"
proof -
  assume "Mapping.is_empty rm"
  then have "Mapping.keys rm = {}" by (simp add: Mapping.is_empty_def)
  then have "k \<notin> dom (Mapping.lookup rm)" by (simp add: keys_dom_lookup)
  then show ?thesis by (simp add: lookup_def domIff)
qed

lemma kept_empty: "Mapping.is_empty rm \<Longrightarrow> kept rm xs = xs"
  by (simp add: kept_def lookup_is_empty nths_all)

lemma removeBlocks_Content: "Root_Content (removeBlocks page rm) = kept rm (Root_Content page)"
  by (simp add: removeBlocks_def compact_all kept_empty Let_def length_kept_le)

lemma removeBlocks_ContentIDs:
  "Root_ContentIDs (removeBlocks page rm) =
     (if Mapping.is_empty rm then Root_ContentIDs page
      else kept rm (Root_ContentIDs page) @ drop (length (kept rm (Root_ContentIDs page))) (Root_ContentIDs page))"
  by (simp add: removeBlocks_def compact_all Let_def)

lemma length_kept: "length (kept rm xs) = length xs - card {i. i < length xs \<and> lookup rm (int i)}"
proof -
  let ?A = "{i. i < length xs \<and> lookup rm (int i)}" and ?B = "{i. i < length xs \<and> \<not> lookup rm (int i)}"
  have "?A \<union> ?B = {..<length xs}" "?A \<inter> ?B = {}" by auto
  then have "card ?A + card ?B = length xs"
    by (metis card_Un_disjoint card_lessThan finite_Un finite_lessThan)
  then show ?thesis by (simp add: kept_def length_nths)
qed

lemma removeBlocks_Content_length:
  "length (Root_Content (removeBlocks page rm)) =
     length (Root_Content page) - card {i. i < length (Root_Content page) \<and> lookup rm (int i)}"
  by (simp add: removeBlocks_Content length_kept)

lemma removeBlocks_ContentIDs_length:
  "length (Root_ContentIDs (removeBlocks page rm)) = length (Root_ContentIDs page)"
  using length_kept_le[of rm "Root_ContentIDs page"] by (simp add: removeBlocks_ContentIDs)

text \<open>
  C1: block removal shortens the block sequence by the number of removed blocks, keeps
  the order of the survivors, and applies the same removal to the identifier list, so
  that both lists have the same length afterwards. The block list is as claimed
  (\<open>removeBlocks_Content\<close>, \<open>removeBlocks_Content_length\<close>), the identifier list is not: it
  keeps its length (\<open>removeBlocks_ContentIDs_length\<close>), and on two blocks with
  identifiers \<open>a\<close> and \<open>b\<close>, removing index 0 leaves one block and the two identifiers
  \<open>b\<close>, \<open>b\<close>.
\<close>

theorem removeBlocks_ids_not_cut:
  "removeBlocks
     (notionPage ''p'' [Some (textBlock ''$id: 1''), Some (textBlock ''body'')] [''a'', ''b''])
     (Mapping.update 0 True Mapping.empty)
   = notionPage ''p'' [Some (textBlock ''body'')] [''b'', ''b'']"
  by (simp add: removeBlocks_def notionPage_def lookup_def upt_rec Mapping.lookup_update')

section \<open>Properties of findSourceFileForEmbedURL\<close>

lemma findSourceFile_loop_find:
  "findSourceFile_loop fs uri =
     (case List.find (\<lambda>f. EmbedURL f = uri) fs of
        None \<Rightarrow> None
      | Some f \<Rightarrow> if FileExists f then Some f else None)"
  by (induction fs) simp_all

text \<open>
  C10: \<open>findSourceFileForEmbedURL\<close> decides on the first entry of \<open>SourceFiles\<close> whose
  \<open>EmbedURL\<close> is the given URL: it returns that entry when its \<open>FileExists\<close> is true and
  nil when it is not, whatever comes later in the list; it returns nil when no entry
  has the URL.
\<close>

theorem findSourceFileForEmbedURL_first_match:
  "findSourceFileForEmbedURL page uri =
     (case List.find (\<lambda>f. EmbedURL f = uri) (SourceFiles page) of
        None \<Rightarrow> None
      | Some f \<Rightarrow> if FileExists f then Some f else None)"
  by (simp add: findSourceFileForEmbedURL_def findSourceFile_loop_find)

section \<open>Properties of gitoembedToRelativePath\<close>

text \<open>
  C7: the viewer URL of the comment above \<open>gitoembedToRelativePath\<close> (without \<open>www.\<close>)
  resolves to the relative path \<open>books/go/0020-basic-types/booleans.go\<close>.
\<close>

theorem gitoembedToRelativePath_booleans:
  "gitoembedToRelativePath
     ''https://onlinetool.io/gitoembed/widget?url=https%3A%2F%2Fgithub.com%2Fessentialbooks%2Fbooks%2Fblob%2Fmaster%2Fbooks%2Fgo%2F0020-basic-types%2Fbooleans.go''
   = Inr ''books/go/0020-basic-types/booleans.go''"
  by code_simp

section \<open>Properties of extractMeta\<close>

lemma lookup_update: "lookup (Mapping.update k v m) k' = (if k = k' then v else lookup m k')"
  by (simp add: lookup_def Mapping.lookup_update')

lemma lookup_empty: "lookup Mapping.empty k = False"
  by (simp add: lookup_def)

lemma applyMetaValue_NotionPage:
  "applyMetaValue nid p mv = Inr p' \<Longrightarrow> NotionPage p' = NotionPage p"
  by (auto simp: applyMetaValue_def panicIf_def split: if_splits)

lemma extractMeta_loop_inv:
  "extractMeta_loop lw nid is (p, rm) = Inr (p', rm') \<Longrightarrow> distinct is \<Longrightarrow>
   length (Root_Content (NotionPage p')) = length (Root_Content (NotionPage p)) \<and>
   (\<forall>j. Root_Content (NotionPage p') ! j =
      (if j \<in> set is \<and> j < length (Root_Content (NotionPage p)) \<and> isMeta lw (Root_Content (NotionPage p) ! j) then None
       else Root_Content (NotionPage p) ! j)) \<and>
   (\<forall>k. lookup rm' k = (lookup rm k \<or> (\<exists>j\<in>set is. k = int j \<and> isMeta lw (Root_Content (NotionPage p) ! j)))) \<and>
   (Mapping.is_empty rm' \<longleftrightarrow> Mapping.is_empty rm \<and> (\<forall>j\<in>set is. \<not> isMeta lw (Root_Content (NotionPage p) ! j))) \<and>
   (\<forall>j\<in>set is. \<exists>r. extractMetaValueFromBlock lw (Root_Content (NotionPage p) ! j) = Inr r) \<and>
   NotionPage p' = (NotionPage p)\<lparr>Root_Content := Root_Content (NotionPage p')\<rparr>"
proof (induction "is" arbitrary: p rm)
  case Nil
  then show ?case by simp
next
  case (Cons idx rest)
  let ?C = "Root_Content (NotionPage p)"
  from Cons.prems(2) have d: "idx \<notin> set rest" "distinct rest" by simp_all
  show ?case
  proof (cases "extractMetaValueFromBlock lw (?C ! idx)")
    case (Inl e)
    with Cons.prems(1) show ?thesis by (simp add: Let_def)
  next
    case (Inr r)
    show ?thesis
    proof (cases r)
      case None
      with Inr Cons.prems(1) have "extractMeta_loop lw nid rest (p, rm) = Inr (p', rm')"
        by (simp add: Let_def)
      from Cons.IH[OF this d(2)] Inr None show ?thesis
        by (auto simp: isMeta_def)
    next
      case (Some mv)
      let ?p1 = "p\<lparr>NotionPage := (NotionPage p)\<lparr>Root_Content := ?C[idx := None]\<rparr>\<rparr>"
      from Some Inr Cons.prems(1) obtain p2 where
        a: "applyMetaValue nid ?p1 mv = Inr p2" and
        l: "extractMeta_loop lw nid rest (p2, Mapping.update (int idx) True rm) = Inr (p', rm')"
        by (auto simp: Let_def split: sum.splits)
      have np: "NotionPage p2 = (NotionPage p)\<lparr>Root_Content := ?C[idx := None]\<rparr>"
        using applyMetaValue_NotionPage[OF a] by simp
      have m: "isMeta lw (?C ! idx)" using Inr Some by (simp add: isMeta_def)
      have same: "\<And>j. j \<in> set rest \<Longrightarrow> (?C[idx := None]) ! j = ?C ! j"
        using d(1) by (metis nth_list_update_neq)
      note ih = Cons.IH[OF l d(2), unfolded np, simplified]
      show ?thesis
      proof (intro conjI)
        show "length (Root_Content (NotionPage p')) = length ?C" using ih by simp
        show "\<forall>j. Root_Content (NotionPage p') ! j =
          (if j \<in> set (idx # rest) \<and> j < length ?C \<and> isMeta lw (?C ! j) then None else ?C ! j)"
        proof
          fix j
          show "Root_Content (NotionPage p') ! j =
          (if j \<in> set (idx # rest) \<and> j < length ?C \<and> isMeta lw (?C ! j) then None else ?C ! j)"
          proof (cases "j = idx")
            case True
            then show ?thesis using ih d(1) m by (cases "idx < length ?C") (auto simp: list_update_beyond)
          next
            case False
            then show ?thesis using ih by (auto simp: nth_list_update)
          qed
        qed
        show "\<forall>k. lookup rm' k = (lookup rm k \<or> (\<exists>j\<in>set (idx # rest). k = int j \<and> isMeta lw (?C ! j)))"
          using ih m same by (auto simp: lookup_update)
        show "Mapping.is_empty rm' \<longleftrightarrow> Mapping.is_empty rm \<and> (\<forall>j\<in>set (idx # rest). \<not> isMeta lw (?C ! j))"
          using ih m by simp
        show "\<forall>j\<in>set (idx # rest). \<exists>r. extractMetaValueFromBlock lw (?C ! j) = Inr r"
          using ih Inr same by auto
        show "NotionPage p' = (NotionPage p)\<lparr>Root_Content := Root_Content (NotionPage p')\<rparr>"
          using ih by simp
      qed
    qed
  qed
qed


lemma nths_cong_nth:
  "length xs = length ys \<Longrightarrow> (\<And>i. i < length xs \<Longrightarrow> (i \<in> I) = (i \<in> J)) \<Longrightarrow>
   (\<And>i. i < length xs \<Longrightarrow> i \<in> I \<Longrightarrow> xs ! i = ys ! i) \<Longrightarrow>
   nths xs I = nths ys J"
proof (induction xs arbitrary: ys I J)
  case Nil
  then show ?case by simp
next
  case (Cons x xs)
  then obtain y ys' where ys: "ys = y # ys'" by (cases ys) auto
  have "nths xs {j. Suc j \<in> I} = nths ys' {j. Suc j \<in> J}"
  proof (rule Cons.IH)
    show "length xs = length ys'" using Cons.prems(1) ys by simp
    show "\<And>i. i < length xs \<Longrightarrow> (i \<in> {j. Suc j \<in> I}) = (i \<in> {j. Suc j \<in> J})"
      using Cons.prems(2) by simp
    show "\<And>i. i < length xs \<Longrightarrow> i \<in> {j. Suc j \<in> I} \<Longrightarrow> xs ! i = ys' ! i"
      using Cons.prems(3) ys by fastforce
  qed
  moreover have "0 \<in> I \<Longrightarrow> x = y" using Cons.prems(3)[of 0] ys by simp
  moreover have "(0 \<in> I) = (0 \<in> J)" using Cons.prems(2)[of 0] by simp
  ultimately show ?case using ys by (simp add: nths_Cons)
qed

lemma extractMeta_loop_all:
  assumes "extractMeta_loop lw nid [0..<length (Root_Content (NotionPage p))] (p, Mapping.empty) = Inr (p', rm')"
  shows "kept rm' (Root_Content (NotionPage p')) = filter (\<lambda>b. \<not> isMeta lw b) (Root_Content (NotionPage p))"
proof -
  let ?C = "Root_Content (NotionPage p)" and ?C' = "Root_Content (NotionPage p')"
  note inv = extractMeta_loop_inv[OF assms distinct_upt]
  have len: "length ?C' = length ?C" using inv by simp
  have lk: "\<And>i. i < length ?C \<Longrightarrow> lookup rm' (int i) = isMeta lw (?C ! i)"
    using inv by (simp add: lookup_empty)
  have nth: "\<And>i. i < length ?C \<Longrightarrow> \<not> isMeta lw (?C ! i) \<Longrightarrow> ?C' ! i = ?C ! i"
    using inv by simp
  have "kept rm' ?C' = nths ?C' {i. \<not> lookup rm' (int i)}" by (simp add: kept_def)
  also have "\<dots> = nths ?C {i. i < length ?C \<and> \<not> isMeta lw (?C ! i)}"
  proof (rule nths_cong_nth)
    show "length ?C' = length ?C" by (rule len)
    show "\<And>i. i < length ?C' \<Longrightarrow> (i \<in> {i. \<not> lookup rm' (int i)}) = (i \<in> {i. i < length ?C \<and> \<not> isMeta lw (?C ! i)})"
      using len lk by simp
    show "\<And>i. i < length ?C' \<Longrightarrow> i \<in> {i. \<not> lookup rm' (int i)} \<Longrightarrow> ?C' ! i = ?C ! i"
      using len lk nth by simp
  qed
  also have "\<dots> = filter (\<lambda>b. \<not> isMeta lw b) ?C" by (simp add: filter_eq_nths)
  finally show ?thesis .
qed

lemma extractMeta_loop_skip:
  "\<forall>i\<in>set is. extractMetaValueFromBlock lw (Root_Content (NotionPage p) ! i) = Inr None \<Longrightarrow>
   extractMeta_loop lw nid is (p, rm) = Inr (p, rm)"
  by (induction "is") (simp_all add: Let_def)

lemma extractMeta_loop_append:
  "extractMeta_loop lw nid (is @ js) st =
     (case extractMeta_loop lw nid is st of Inl e \<Rightarrow> Inl e | Inr st' \<Rightarrow> extractMeta_loop lw nid js st')"
proof (induction "is" arbitrary: st)
  case Nil
  then show ?case by simp
next
  case (Cons idx rest)
  obtain p rm where st: "st = (p, rm)" by (cases st)
  show ?case unfolding st
    by (simp add: Let_def Cons.IH split: sum.splits option.splits)
qed

lemma removeBlocks_empty: "removeBlocks page Mapping.empty = page"
  by (simp add: removeBlocks_def)

lemma extractMeta_Inr:
  assumes "extractMeta lw nid p = Inr p'"
  obtains p1 rm where
    "extractMeta_loop lw nid [0..<length (Root_Content (NotionPage p))] (p, Mapping.empty) = Inr (p1, rm)"
    "p' = p1\<lparr>NotionPage := removeBlocks (NotionPage p1) rm\<rparr>"
  using assms by (auto simp: extractMeta_def split: sum.splits)

lemma extractMeta_Content:
  assumes "extractMeta lw nid p = Inr p'"
  shows "Root_Content (NotionPage p') = filter (\<lambda>b. \<not> isMeta lw b) (Root_Content (NotionPage p))"
    and "\<forall>b\<in>set (Root_Content (NotionPage p)). \<exists>r. extractMetaValueFromBlock lw b = Inr r"
proof -
  from assms obtain p1 rm where
    l: "extractMeta_loop lw nid [0..<length (Root_Content (NotionPage p))] (p, Mapping.empty) = Inr (p1, rm)"
    and p': "p' = p1\<lparr>NotionPage := removeBlocks (NotionPage p1) rm\<rparr>"
    by (rule extractMeta_Inr)
  show "Root_Content (NotionPage p') = filter (\<lambda>b. \<not> isMeta lw b) (Root_Content (NotionPage p))"
    using extractMeta_loop_all[OF l] by (simp add: p' removeBlocks_Content)
  have "\<forall>j\<in>set [0..<length (Root_Content (NotionPage p))].
          \<exists>r. extractMetaValueFromBlock lw (Root_Content (NotionPage p) ! j) = Inr r"
    using extractMeta_loop_inv[OF l distinct_upt] by blast
  then show "\<forall>b\<in>set (Root_Content (NotionPage p)). \<exists>r. extractMetaValueFromBlock lw b = Inr r"
    by (auto simp: in_set_conv_nth)
qed

lemma not_isMeta_Inr: "\<not> isMeta lw b \<Longrightarrow> extractMetaValueFromBlock lw b = Inr r \<Longrightarrow> r = None"
  by (cases r) (simp_all add: isMeta_def)

text \<open>The meta-value blocks are the blocks that satisfy the directive predicate of the
  specification and have a colon in their trimmed text.\<close>

lemma SplitN2_length: "(length (SplitN2 s sep) = 2) = (sep \<in> set s)"
  by (simp add: SplitN2_def Cut_def)

lemma isMeta_colonDirective: "isMeta lw block = colonDirective block"
proof (cases block)
  case None
  then show ?thesis by (simp add: isMeta_def extractMetaValueFromBlock_def colonDirective_def)
next
  case (Some b)
  show ?thesis
  proof (cases "length (InlineContent b) = 1")
    case False
    then show ?thesis
      by (simp add: Some isMeta_def extractMetaValueFromBlock_def colonDirective_def
            specDirective_def)
  next
    case True
    then have hd0: "InlineContent b ! 0 = hd (InlineContent b)"
      by (cases "InlineContent b") simp_all
    have s0: "4 \<le> length (trimmedText b) \<Longrightarrow> trimmedText b ! 0 = hd (trimmedText b)"
      by (cases "trimmedText b") simp_all
    show ?thesis
      using True s0
      by (auto simp: Some isMeta_def extractMetaValueFromBlock_def colonDirective_def
            specDirective_def trimmedText_def hd0 Let_def SplitN2_length)
  qed
qed

text \<open>
  C3, as the code has it: when \<open>extractMeta\<close> returns, no block that remains is a
  meta-value block, that is, none satisfies the directive predicate and has a colon in
  its trimmed text; and running \<open>extractMeta\<close> again on the result returns the same
  page: the block sequence and the fields \<open>ID\<close>, \<open>StackOverflowID\<close> and \<open>Search\<close> (and
  every other field) are unchanged.
\<close>

theorem extractMeta_idempotent:
  assumes "extractMeta lw nid p = Inr p'"
  shows "\<not> list_ex (isMeta lw) (Root_Content (NotionPage p')) \<and>
         \<not> list_ex colonDirective (Root_Content (NotionPage p')) \<and>
         extractMeta lw nid p' = Inr p'"
proof -
  let ?C' = "Root_Content (NotionPage p')"
  have c: "?C' = filter (\<lambda>b. \<not> isMeta lw b) (Root_Content (NotionPage p))"
    and ok: "\<forall>b\<in>set (Root_Content (NotionPage p)). \<exists>r. extractMetaValueFromBlock lw b = Inr r"
    using extractMeta_Content[OF assms] by simp_all
  have none: "\<forall>b\<in>set ?C'. extractMetaValueFromBlock lw b = Inr None"
  proof
    fix b assume "b \<in> set ?C'"
    then have "b \<in> set (Root_Content (NotionPage p))" "\<not> isMeta lw b" using c by simp_all
    then show "extractMetaValueFromBlock lw b = Inr None" using ok not_isMeta_Inr by blast
  qed
  have "\<forall>i\<in>set [0..<length ?C']. extractMetaValueFromBlock lw (?C' ! i) = Inr None"
    using none by simp
  then have "extractMeta_loop lw nid [0..<length ?C'] (p', Mapping.empty) = Inr (p', Mapping.empty)"
    by (rule extractMeta_loop_skip)
  then have again: "extractMeta lw nid p' = Inr p'"
    by (simp add: extractMeta_def removeBlocks_empty)
  have m: "\<not> list_ex (isMeta lw) ?C'" using c by (simp add: list_ex_iff)
  then have "\<not> list_ex colonDirective ?C'"
    by (simp add: list_ex_iff isMeta_colonDirective)
  with m again show ?thesis by simp
qed

text \<open>A page with an \<open>$id\<close> block, a body block, a \<open>$abcd\<close> block and a \<open>$Search\<close> block: the
  first run keeps the body block and the \<open>$abcd\<close> block and sets the fields, the second
  run changes nothing.\<close>

theorem extractMeta_idempotent_witness:
  "extractMeta exampleLower noDashID (newPage (notionPage ''p''
          [Some (textBlock ''$id: 59''), Some (textBlock ''hello''), Some (textBlock ''$abcd''),
           Some (textBlock '' $Search: a, b , c '')]
          [''i0'', ''i1'', ''i2'', ''i3'']))
    = Inr ((newPage (notionPage ''p'' [Some (textBlock ''hello''), Some (textBlock ''$abcd'')]
                       [''i1'', ''i2'', ''i2'', ''i3'']))
             \<lparr>Page.ID := ''59'', Search := [''a'', ''b'', ''c'']\<rparr>)
   \<and> \<not> list_ex (isMeta exampleLower) [Some (textBlock ''hello''), Some (textBlock ''$abcd'')]
   \<and> \<not> list_ex colonDirective [Some (textBlock ''hello''), Some (textBlock ''$abcd'')]
   \<and> extractMeta exampleLower noDashID
        ((newPage (notionPage ''p'' [Some (textBlock ''hello''), Some (textBlock ''$abcd'')]
                       [''i1'', ''i2'', ''i2'', ''i3'']))
             \<lparr>Page.ID := ''59'', Search := [''a'', ''b'', ''c'']\<rparr>)
      = Inr ((newPage (notionPage ''p'' [Some (textBlock ''hello''), Some (textBlock ''$abcd'')]
                       [''i1'', ''i2'', ''i2'', ''i3'']))
             \<lparr>Page.ID := ''59'', Search := [''a'', ''b'', ''c'']\<rparr>)"
proof -
  have h: "extractMeta exampleLower noDashID (newPage (notionPage ''p''
          [Some (textBlock ''$id: 59''), Some (textBlock ''hello''), Some (textBlock ''$abcd''),
           Some (textBlock '' $Search: a, b , c '')]
          [''i0'', ''i1'', ''i2'', ''i3'']))
    = Inr ((newPage (notionPage ''p'' [Some (textBlock ''hello''), Some (textBlock ''$abcd'')]
                       [''i1'', ''i2'', ''i2'', ''i3'']))
             \<lparr>Page.ID := ''59'', Search := [''a'', ''b'', ''c'']\<rparr>)"
    by code_simp
  from extractMeta_idempotent[OF h] h show ?thesis
    by (simp add: newPage_def notionPage_def)
qed

text \<open>The claim C3 as stated, with the directive predicate of the specification
  (conditions (a) to (d), no colon asked for), fails on the page with the blocks
  \<open>$id: 1\<close> and \<open>$abcd\<close>: \<open>extractMeta\<close> returns, and the block \<open>$abcd\<close> that remains
  satisfies the predicate.\<close>

theorem directive_remains_counterexample:
  "extractMeta exampleLower noDashID (newPage (notionPage ''p''
          [Some (textBlock ''$id: 1''), Some (textBlock ''$abcd'')] [''i0'', ''i1'']))
    = Inr ((newPage (notionPage ''p'' [Some (textBlock ''$abcd'')] [''i1'', ''i1'']))
             \<lparr>Page.ID := ''1''\<rparr>)
   \<and> list_ex specDirective (Root_Content (NotionPage
         ((newPage (notionPage ''p'' [Some (textBlock ''$abcd'')] [''i1'', ''i1'']))
             \<lparr>Page.ID := ''1''\<rparr>)))"
  by code_simp

lemma applyMetaValue_known:
  "knownKey (Key mv) \<Longrightarrow> \<exists>p'. applyMetaValue nid p mv = Inr p'"
  by (auto simp: applyMetaValue_def knownKey_def)

lemma applyMetaValue_unknown:
  "\<not> knownKey (Key mv) \<Longrightarrow>
   applyMetaValue nid p mv = Inl (Panic (''unknown key '' @ [CHR 0x27] @ Key mv @ [CHR 0x27] @ '' in page with id ''
                        @ nid (NotionPage.ID (NotionPage p))))"
  by (simp add: applyMetaValue_def knownKey_def panicIf_def)

lemma extractMeta_loop_accepted:
  "distinct is \<Longrightarrow> \<forall>i\<in>set is. accepted lw (Root_Content (NotionPage p) ! i) \<Longrightarrow>
   \<exists>p' rm'. extractMeta_loop lw nid is (p, rm) = Inr (p', rm')"
proof (induction "is" arbitrary: p rm)
  case Nil
  then show ?case by simp
next
  case (Cons idx rest)
  let ?C = "Root_Content (NotionPage p)"
  from Cons.prems have d: "idx \<notin> set rest" "distinct rest"
    and acc: "accepted lw (?C ! idx)" "\<forall>i\<in>set rest. accepted lw (?C ! i)" by simp_all
  show ?case
  proof (cases "extractMetaValueFromBlock lw (?C ! idx)")
    case (Inl e)
    with acc(1) show ?thesis by (simp add: accepted_def)
  next
    case (Inr r)
    show ?thesis
    proof (cases r)
      case None
      with Inr Cons.IH[OF d(2) acc(2)] show ?thesis by (simp add: Let_def)
    next
      case (Some mv)
      let ?p1 = "p\<lparr>NotionPage := (NotionPage p)\<lparr>Root_Content := ?C[idx := None]\<rparr>\<rparr>"
      from acc(1) Inr Some have "knownKey (Key mv)" by (simp add: accepted_def)
      then obtain p2 where a: "applyMetaValue nid ?p1 mv = Inr p2"
        using applyMetaValue_known by blast
      have np: "NotionPage p2 = (NotionPage p)\<lparr>Root_Content := ?C[idx := None]\<rparr>"
        using applyMetaValue_NotionPage[OF a] by simp
      have "\<forall>i\<in>set rest. accepted lw (Root_Content (NotionPage p2) ! i)"
      proof
        fix i assume i: "i \<in> set rest"
        then have "i \<noteq> idx" using d(1) by blast
        then have "Root_Content (NotionPage p2) ! i = ?C ! i" by (simp add: np)
        then show "accepted lw (Root_Content (NotionPage p2) ! i)" using acc(2) i by simp
      qed
      from Cons.IH[OF d(2) this] Inr Some a show ?thesis by (simp add: Let_def)
    qed
  qed
qed

lemma extractMeta_total:
  assumes "list_all (accepted lw) (Root_Content (NotionPage p))"
  shows "\<exists>p'. extractMeta lw nid p = Inr p'"
proof -
  have "\<forall>i\<in>set [0..<length (Root_Content (NotionPage p))]. accepted lw (Root_Content (NotionPage p) ! i)"
    using assms by (simp add: list_all_length)
  from extractMeta_loop_accepted[OF distinct_upt this, where nid = nid and rm = Mapping.empty] obtain p1 rm1 where
    "extractMeta_loop lw nid [0..<length (Root_Content (NotionPage p))] (p, Mapping.empty) = Inr (p1, rm1)"
    by blast
  then show ?thesis by (simp add: extractMeta_def)
qed

text \<open>
  C5: a directive block whose key is not \<open>$id\<close>, \<open>$soid\<close>, \<open>$search\<close> or \<open>$score\<close>, reached
  by the loop (the blocks before it are not nil and are not directives with an unknown
  key), makes \<open>extractMeta\<close> panic with the message
  \<open>unknown key '<key>' in page with id <normalizeID(page.ID)>\<close>: the block is not
  skipped, and the message names the key and the page.
\<close>

theorem extractMeta_unknown_key:
  assumes c: "Root_Content (NotionPage p) = pre @ block # post"
    and pre: "list_all (accepted lw) pre"
    and mv: "extractMetaValueFromBlock lw block = Inr (Some mv)"
    and key: "\<not> knownKey (Key mv)"
  shows "extractMeta lw nid p =
           Inl (Panic (''unknown key '' @ [CHR 0x27] @ Key mv @ [CHR 0x27] @ '' in page with id ''
                        @ nid (NotionPage.ID (NotionPage p))))"
proof -
  let ?C = "Root_Content (NotionPage p)" and ?n = "length pre"
  have n: "?n < length ?C" using c by simp
  have upt: "[0..<length ?C] = [0..<?n] @ ?n # [Suc ?n..<length ?C]"
    using n by (metis le0 upt_add_eq_append upt_rec le_add_diff_inverse less_imp_le_nat)
  have "\<forall>i\<in>set [0..<?n]. accepted lw (?C ! i)"
    using pre c by (simp add: list_all_length nth_append)
  then obtain p1 rm1 where l1: "extractMeta_loop lw nid [0..<?n] (p, Mapping.empty) = Inr (p1, rm1)"
    using extractMeta_loop_accepted[OF distinct_upt] by blast
  note inv = extractMeta_loop_inv[OF l1 distinct_upt]
  have b: "Root_Content (NotionPage p1) ! ?n = block" using inv c by simp
  have pid: "NotionPage.ID (NotionPage p1) = NotionPage.ID (NotionPage p)"
    using inv by (metis NotionPage.select_convs(1) NotionPage.surjective NotionPage.update_convs(4))
  have "extractMeta_loop lw nid (?n # [Suc ?n..<length ?C]) (p1, rm1) =
          Inl (Panic (''unknown key '' @ [CHR 0x27] @ Key mv @ [CHR 0x27] @ '' in page with id ''
                        @ nid (NotionPage.ID (NotionPage p))))"
    using b mv applyMetaValue_unknown[OF key] pid by (simp add: Let_def)
  then show ?thesis
    unfolding extractMeta_def upt extractMeta_loop_append l1 by simp
qed


text \<open>The block \<open>$bogus: x\<close> after an \<open>$id\<close> block, in the page \<open>ab-cd\<close>.\<close>

theorem extractMeta_unknown_key_witness:
  "extractMeta exampleLower noDashID (newPage (notionPage ''ab-cd''
      [Some (textBlock ''$id: 1''), Some (textBlock ''$bogus: x''), Some (textBlock ''tail'')]
      [''i0'', ''i1'', ''i2'']))
   = Inl (Panic ''unknown key '$bogus' in page with id abcd'')"
proof -
  have c: "Root_Content (NotionPage (newPage (notionPage ''ab-cd''
      [Some (textBlock ''$id: 1''), Some (textBlock ''$bogus: x''), Some (textBlock ''tail'')]
      [''i0'', ''i1'', ''i2''])))
    = [Some (textBlock ''$id: 1'')] @ Some (textBlock ''$bogus: x'') # [Some (textBlock ''tail'')]"
    by (simp add: newPage_def notionPage_def)
  have pre: "list_all (accepted exampleLower) [Some (textBlock ''$id: 1'')]" by code_simp
  have mv: "extractMetaValueFromBlock exampleLower (Some (textBlock ''$bogus: x''))
              = Inr (Some \<lparr>Key = ''$bogus'', Value = ''x''\<rparr>)" by code_simp
  have key: "\<not> knownKey (Key \<lparr>Key = ''$bogus'', Value = ''x''\<rparr>)" by (simp add: knownKey_def)
  have pid: "noDashID ''ab-cd'' = ''abcd''" by (simp add: noDashID_def)
  from extractMeta_unknown_key[OF c pre mv key, where nid = noDashID] show ?thesis
    by (simp add: newPage_def notionPage_def pid)
qed

lemma applyMetaValue_search:
  "Key mv = ''$search'' \<Longrightarrow>
   applyMetaValue nid p mv = Inr (p\<lparr>Search := map TrimSpace (Split (Value mv) (CHR '',''))\<rparr>)"
  by (simp add: applyMetaValue_def)

lemma applyMetaValue_Search_same:
  "applyMetaValue nid p mv = Inr p' \<Longrightarrow> Key mv \<noteq> ''$search'' \<Longrightarrow> Search p' = Search p"
  by (auto simp: applyMetaValue_def panicIf_def split: if_splits)

lemma extractMeta_loop_Search:
  "extractMeta_loop lw nid is (p, rm) = Inr (p', rm') \<Longrightarrow> distinct is \<Longrightarrow>
   \<forall>i\<in>set is. \<not> isSearch lw (Root_Content (NotionPage p) ! i) \<Longrightarrow> Search p' = Search p"
proof (induction "is" arbitrary: p rm)
  case Nil
  then show ?case by simp
next
  case (Cons idx rest)
  let ?C = "Root_Content (NotionPage p)"
  from Cons.prems have d: "idx \<notin> set rest" "distinct rest"
    and ns: "\<not> isSearch lw (?C ! idx)" "\<forall>i\<in>set rest. \<not> isSearch lw (?C ! i)" by simp_all
  show ?case
  proof (cases "extractMetaValueFromBlock lw (?C ! idx)")
    case (Inl e)
    with Cons.prems(1) show ?thesis by (simp add: Let_def)
  next
    case (Inr r)
    show ?thesis
    proof (cases r)
      case None
      with Inr Cons.prems(1) have "extractMeta_loop lw nid rest (p, rm) = Inr (p', rm')"
        by (simp add: Let_def)
      from Cons.IH[OF this d(2) ns(2)] show ?thesis .
    next
      case (Some mv)
      let ?p1 = "p\<lparr>NotionPage := (NotionPage p)\<lparr>Root_Content := ?C[idx := None]\<rparr>\<rparr>"
      from Some Inr Cons.prems(1) obtain p2 where
        a: "applyMetaValue nid ?p1 mv = Inr p2" and
        l: "extractMeta_loop lw nid rest (p2, Mapping.update (int idx) True rm) = Inr (p', rm')"
        by (auto simp: Let_def split: sum.splits)
      have np: "NotionPage p2 = (NotionPage p)\<lparr>Root_Content := ?C[idx := None]\<rparr>"
        using applyMetaValue_NotionPage[OF a] by simp
      have k: "Key mv \<noteq> ''$search''" using ns(1) Inr Some by (simp add: isSearch_def)
      have "\<forall>i\<in>set rest. \<not> isSearch lw (Root_Content (NotionPage p2) ! i)"
      proof
        fix i assume i: "i \<in> set rest"
        then have "i \<noteq> idx" using d(1) by blast
        then have "Root_Content (NotionPage p2) ! i = ?C ! i" by (simp add: np)
        then show "\<not> isSearch lw (Root_Content (NotionPage p2) ! i)" using ns(2) i by simp
      qed
      from Cons.IH[OF l d(2) this] applyMetaValue_Search_same[OF a k] show ?thesis by simp
    qed
  qed
qed

text \<open>\<open>extractMeta\<close> returns exactly on the block sequences whose blocks are all accepted:
  a nil block or a directive with an unknown key ends it with a panic.\<close>

lemma extractMeta_loop_not_accepted:
  assumes c: "Root_Content (NotionPage p) = pre @ block # post"
    and pre: "list_all (accepted lw) pre"
    and block: "\<not> accepted lw block"
  shows "\<exists>e. extractMeta lw nid p = Inl e"
proof -
  let ?C = "Root_Content (NotionPage p)" and ?n = "length pre"
  have n: "?n < length ?C" using c by simp
  have upt: "[0..<length ?C] = [0..<?n] @ ?n # [Suc ?n..<length ?C]"
    using n by (metis le0 upt_add_eq_append upt_rec le_add_diff_inverse less_imp_le_nat)
  have "\<forall>i\<in>set [0..<?n]. accepted lw (?C ! i)"
    using pre c by (simp add: list_all_length nth_append)
  then obtain p1 rm1 where l1: "extractMeta_loop lw nid [0..<?n] (p, Mapping.empty) = Inr (p1, rm1)"
    using extractMeta_loop_accepted[OF distinct_upt] by blast
  note inv = extractMeta_loop_inv[OF l1 distinct_upt]
  have b: "Root_Content (NotionPage p1) ! ?n = block" using inv c by simp
  have "\<exists>e. extractMeta_loop lw nid (?n # [Suc ?n..<length ?C]) (p1, rm1) = Inl e"
  proof (cases "extractMetaValueFromBlock lw block")
    case (Inl e)
    then show ?thesis using b by (simp add: Let_def)
  next
    case (Inr r)
    with block obtain mv where mv: "r = Some mv" "\<not> knownKey (Key mv)"
      by (cases r) (simp_all add: accepted_def)
    then show ?thesis using b Inr applyMetaValue_unknown[OF mv(2)] by (simp add: Let_def)
  qed
  then show ?thesis
    unfolding extractMeta_def upt extractMeta_loop_append l1 by auto
qed

lemma extractMeta_returns_iff:
  "(\<exists>p'. extractMeta lw nid p = Inr p') = list_all (accepted lw) (Root_Content (NotionPage p))"
proof
  assume r: "\<exists>p'. extractMeta lw nid p = Inr p'"
  show "list_all (accepted lw) (Root_Content (NotionPage p))"
  proof (rule ccontr)
    assume "\<not> list_all (accepted lw) (Root_Content (NotionPage p))"
    then have "\<exists>x\<in>set (Root_Content (NotionPage p)). \<not> accepted lw x" by (simp add: list_all_iff)
    then obtain pre block post where
      "Root_Content (NotionPage p) = pre @ block # post" "\<not> accepted lw block"
      "\<forall>y\<in>set pre. \<not> \<not> accepted lw y"
      using split_list_first_prop[of "Root_Content (NotionPage p)" "\<lambda>x. \<not> accepted lw x"] by blast
    then have "\<exists>e. extractMeta lw nid p = Inl e"
      using extractMeta_loop_not_accepted[where p = p and pre = pre and block = block and post = post and nid = nid and lw = lw] by (simp add: list_all_iff)
    with r show False by auto
  qed
next
  assume "list_all (accepted lw) (Root_Content (NotionPage p))"
  then show "\<exists>p'. extractMeta lw nid p = Inr p'" by (rule extractMeta_total)
qed

text \<open>
  C8: when the last \<open>$search\<close> directive of a page has the value \<open>v\<close> and \<open>extractMeta\<close>
  returns, the \<open>Search\<close> list of the page is \<open>v\<close> split at every comma, each entry
  trimmed, in the order of \<open>v\<close>.
\<close>

theorem extractMeta_search:
  assumes c: "Root_Content (NotionPage p) = pre @ block # post"
    and mv: "extractMetaValueFromBlock lw block = Inr (Some mv)"
    and key: "Key mv = ''$search''"
    and post: "\<not> list_ex (isSearch lw) post"
    and r: "extractMeta lw nid p = Inr p'"
  shows "Search p' = map TrimSpace (Split (Value mv) (CHR '',''))"
proof -
  let ?C = "Root_Content (NotionPage p)" and ?n = "length pre"
  from r obtain p3 rm3 where
    l: "extractMeta_loop lw nid [0..<length ?C] (p, Mapping.empty) = Inr (p3, rm3)"
    and p': "p' = p3\<lparr>NotionPage := removeBlocks (NotionPage p3) rm3\<rparr>"
    by (rule extractMeta_Inr)
  have n: "?n < length ?C" using c by simp
  have upt: "[0..<length ?C] = [0..<?n] @ ?n # [Suc ?n..<length ?C]"
    using n by (metis le0 upt_add_eq_append upt_rec le_add_diff_inverse less_imp_le_nat)
  from l obtain p1 rm1 where
    l1: "extractMeta_loop lw nid [0..<?n] (p, Mapping.empty) = Inr (p1, rm1)" and
    l2: "extractMeta_loop lw nid (?n # [Suc ?n..<length ?C]) (p1, rm1) = Inr (p3, rm3)"
    unfolding upt extractMeta_loop_append by (auto split: sum.splits)
  note inv = extractMeta_loop_inv[OF l1 distinct_upt]
  have nth1: "\<And>i. ?n \<le> i \<Longrightarrow> Root_Content (NotionPage p1) ! i = ?C ! i" using inv by simp
  let ?C1 = "Root_Content (NotionPage p1)"
  let ?p2 = "p1\<lparr>NotionPage := (NotionPage p1)\<lparr>Root_Content := ?C1[?n := None]\<rparr>,
                 Search := map TrimSpace (Split (Value mv) (CHR '',''))\<rparr>"
  have b: "?C1 ! ?n = block" using nth1[of ?n] c by simp
  have l3: "extractMeta_loop lw nid [Suc ?n..<length ?C] (?p2, Mapping.update (int ?n) True rm1) = Inr (p3, rm3)"
    using l2 b mv applyMetaValue_search[OF key] by (simp add: Let_def)
  have "\<forall>i\<in>set [Suc ?n..<length ?C]. \<not> isSearch lw (Root_Content (NotionPage ?p2) ! i)"
  proof
    fix i assume i: "i \<in> set [Suc ?n..<length ?C]"
    then have "Root_Content (NotionPage ?p2) ! i = ?C ! i" using nth1[of i] by simp
    also have "\<dots> = post ! (i - Suc ?n)"
    proof -
      from i have ge: "Suc ?n \<le> i" by simp
      then have "i - ?n = Suc (i - Suc ?n)" by simp
      then have "(block # post) ! (i - ?n) = post ! (i - Suc ?n)" by simp
      moreover have "(pre @ block # post) ! i = (block # post) ! (i - ?n)"
        using ge by (simp add: nth_append)
      ultimately show ?thesis using c by simp
    qed
    finally have e: "Root_Content (NotionPage ?p2) ! i = post ! (i - Suc ?n)" .
    have "i - Suc ?n < length post" using i c by auto
    then have "\<not> isSearch lw (post ! (i - Suc ?n))" using post by (auto simp: list_ex_length)
    then show "\<not> isSearch lw (Root_Content (NotionPage ?p2) ! i)" using e by simp
  qed
  from extractMeta_loop_Search[OF l3 distinct_upt this] show ?thesis by (simp add: p')
qed

text \<open>The block \<open>$search: a, b , c\<close> gives the list \<open>a\<close>, \<open>b\<close>, \<open>c\<close>.\<close>

theorem extractMeta_search_witness:
  "\<exists>p'. extractMeta exampleLower noDashID (newPage (notionPage ''p''
          [Some (textBlock ''$search: x''), Some (textBlock ''hello''), Some (textBlock ''$search: a, b , c'')]
          [''i0'', ''i1'', ''i2''])) = Inr p' \<and>
        Search p' = [''a'', ''b'', ''c'']"
proof -
  let ?p = "newPage (notionPage ''p''
          [Some (textBlock ''$search: x''), Some (textBlock ''hello''), Some (textBlock ''$search: a, b , c'')]
          [''i0'', ''i1'', ''i2''])"
  have c: "Root_Content (NotionPage ?p)
     = [Some (textBlock ''$search: x''), Some (textBlock ''hello'')] @ Some (textBlock ''$search: a, b , c'') # []"
    by (simp add: newPage_def notionPage_def)
  have mv: "extractMetaValueFromBlock exampleLower (Some (textBlock ''$search: a, b , c''))
              = Inr (Some \<lparr>Key = ''$search'', Value = ''a, b , c''\<rparr>)" by code_simp
  have key: "Key \<lparr>Key = ''$search'', Value = ''a, b , c''\<rparr> = ''$search''" by simp
  have post: "\<not> list_ex (isSearch exampleLower) []" by simp
  obtain p' where r: "extractMeta exampleLower noDashID ?p = Inr p'"
  proof -
    have "list_all (accepted exampleLower) (Root_Content (NotionPage ?p))" by code_simp
    then show ?thesis using extractMeta_total that by blast
  qed
  have v: "map TrimSpace (Split ''a, b , c'' (CHR '','')) = [''a'', ''b'', ''c'']" by code_simp
  from extractMeta_search[OF c mv key post r] v have "Search p' = [''a'', ''b'', ''c'']" by simp
  with r show ?thesis by blast
qed

lemma SplitN2_no_sep: "sep \<notin> set s \<Longrightarrow> SplitN2 s sep = [s]"
  by (simp add: SplitN2_def Cut_def)

text \<open>
  C2, as the code has it: a text block with one plain inline run whose trimmed text has
  at least 4 bytes, starts with \<open>$\<close> and has no colon is not a meta-value block
  (\<open>extractMetaValueFromBlock\<close> returns nil, lines 107 to 110), and the loop of
  \<open>extractMeta\<close> goes on to the next block with the page and the removal set unchanged;
  when \<open>extractMeta\<close> returns, the block is still in the block sequence.
\<close>

theorem noColon_block_skipped:
  assumes nc: "noColonDirective b"
    and idx: "idx < length (Root_Content (NotionPage p))"
    and b: "Root_Content (NotionPage p) ! idx = Some b"
  shows "extractMetaValueFromBlock lw (Some b) = Inr None \<and>
         extractMeta_loop lw nid (idx # rest) (p, rm) = extractMeta_loop lw nid rest (p, rm) \<and>
         (\<forall>p'. extractMeta lw nid p = Inr p' \<longrightarrow> Some b \<in> set (Root_Content (NotionPage p')))"
proof -
  let ?s = "TrimSpace (Text (hd (InlineContent b)))"
  from nc have t: "Type b = BlockText" and len: "length (InlineContent b) = 1"
    and pl: "IsPlain (hd (InlineContent b))"
    and s: "4 \<le> length ?s" "hd ?s = CHR ''$''" "CHR '':'' \<notin> set ?s"
    by (simp_all add: noColonDirective_def Let_def)
  have hd0: "InlineContent b ! 0 = hd (InlineContent b)"
    using len by (cases "InlineContent b") simp_all
  have s0: "?s ! 0 = CHR ''$''" using s(1,2) by (cases ?s) simp_all
  have none: "extractMetaValueFromBlock lw (Some b) = Inr None"
    using t len pl s(1) s0 SplitN2_no_sep[OF s(3)]
    by (simp add: extractMetaValueFromBlock_def hd0 Let_def)
  have step: "extractMeta_loop lw nid (idx # rest) (p, rm) = extractMeta_loop lw nid rest (p, rm)"
    using none b by (simp add: Let_def)
  have mem: "Some b \<in> set (Root_Content (NotionPage p))" using idx b by (metis nth_mem)
  have stays: "\<forall>p'. extractMeta lw nid p = Inr p' \<longrightarrow> Some b \<in> set (Root_Content (NotionPage p'))"
  proof (intro allI impI)
    fix p' assume "extractMeta lw nid p = Inr p'"
    from extractMeta_Content(1)[OF this] mem none
    show "Some b \<in> set (Root_Content (NotionPage p'))" by (simp add: isMeta_def)
  qed
  from none step stays show ?thesis by blast
qed

text \<open>The block \<open>$abcd\<close> with spaces around it, after an \<open>$id\<close> block.\<close>

theorem noColon_block_skipped_witness:
  "extractMetaValueFromBlock exampleLower (Some (textBlock ''  $abcd '')) = Inr None \<and>
   extractMeta_loop exampleLower noDashID [1] (newPage (notionPage ''p''
        [Some (textBlock ''$id: 7''), Some (textBlock ''  $abcd '')] [''i0'', ''i1'']), Mapping.empty)
     = Inr (newPage (notionPage ''p''
        [Some (textBlock ''$id: 7''), Some (textBlock ''  $abcd '')] [''i0'', ''i1'']), Mapping.empty) \<and>
   extractMeta exampleLower noDashID (newPage (notionPage ''p''
        [Some (textBlock ''$id: 7''), Some (textBlock ''  $abcd '')] [''i0'', ''i1'']))
     = Inr ((newPage (notionPage ''p'' [Some (textBlock ''  $abcd '')] [''i1'', ''i1'']))\<lparr>Page.ID := ''7''\<rparr>) \<and>
   Some (textBlock ''  $abcd '') \<in> set (Root_Content (NotionPage
      ((newPage (notionPage ''p'' [Some (textBlock ''  $abcd '')] [''i1'', ''i1'']))\<lparr>Page.ID := ''7''\<rparr>)))"
proof -
  let ?p = "newPage (notionPage ''p''
        [Some (textBlock ''$id: 7''), Some (textBlock ''  $abcd '')] [''i0'', ''i1''])"
  have nc: "noColonDirective (textBlock ''  $abcd '')" by code_simp
  have idx: "1 < length (Root_Content (NotionPage ?p))" by (simp add: newPage_def notionPage_def)
  have b: "Root_Content (NotionPage ?p) ! 1 = Some (textBlock ''  $abcd '')"
    by (simp add: newPage_def notionPage_def)
  have r: "extractMeta exampleLower noDashID ?p
     = Inr ((newPage (notionPage ''p'' [Some (textBlock ''  $abcd '')] [''i1'', ''i1'']))\<lparr>Page.ID := ''7''\<rparr>)"
    by code_simp
  from noColon_block_skipped[OF nc idx b, where lw = exampleLower and nid = noDashID and rest = "[]" and rm = Mapping.empty] r show ?thesis by simp
qed

text \<open>The claim C2 as stated (such a block makes \<open>extractMeta\<close> abort) fails on the page
  whose only block is \<open>$abcd\<close>: \<open>extractMeta\<close> returns the page as it was.\<close>

theorem noColon_block_counterexample:
  "noColonDirective (textBlock ''$abcd'') \<and>
   extractMeta exampleLower noDashID (newPage (notionPage ''p'' [Some (textBlock ''$abcd'')] [''i0'']))
     = Inr (newPage (notionPage ''p'' [Some (textBlock ''$abcd'')] [''i0'']))"
  by code_simp

section \<open>Properties of getSubPages\<close>

lemma kept_filter:
  assumes "\<And>i. i < length xs \<Longrightarrow> lookup rm (int i) = P (xs ! i)"
  shows "kept rm xs = filter (\<lambda>x. \<not> P x) xs"
proof -
  have "kept rm xs = nths xs {i. \<not> lookup rm (int i)}" by (simp add: kept_def)
  also have "\<dots> = nths xs {i. i < length xs \<and> \<not> P (xs ! i)}"
    using assms by (intro nths_cong_nth) simp_all
  also have "\<dots> = filter (\<lambda>x. \<not> P x) xs" by (simp add: filter_eq_nths)
  finally show ?thesis .
qed

lemma getSubPages_loop_append:
  "getSubPages_loop nid m idx (xs @ ys) st =
     (case getSubPages_loop nid m idx xs st of
        Inl e \<Rightarrow> Inl e
      | Inr st' \<Rightarrow> getSubPages_loop nid m (idx + length xs) ys st')"
proof (induction xs arbitrary: idx st)
  case Nil
  then show ?case by simp
next
  case (Cons x xs)
  obtain res rm where st: "st = (res, rm)" by (cases st)
  have eq: "idx + length (x # xs) = Suc idx + length xs" by simp
  show ?case unfolding st eq
    by (simp add: Let_def Cons.IH panicIf_def split: option.splits)
qed

lemma getSubPages_loop_mapped:
  "list_all (mapped nid m) bs \<Longrightarrow>
   \<exists>rm'. getSubPages_loop nid m idx (map Some bs) (res, rm) =
            Inr (res @ map (\<lambda>b. m (nid (Block.ID b))) (filter (\<lambda>b. Type b = BlockPage) bs), rm') \<and>
          (\<forall>k. lookup rm' k =
             (lookup rm k \<or> (\<exists>j<length bs. k = int (idx + j) \<and> Type (bs ! j) = BlockPage))) \<and>
          (Mapping.is_empty rm' \<longleftrightarrow> Mapping.is_empty rm \<and> \<not> list_ex (\<lambda>b. Type b = BlockPage) bs)"
proof (induction bs arbitrary: idx res rm)
  case Nil
  then show ?case by simp
next
  case (Cons b bs)
  then have mb: "mapped nid m b" and rest: "list_all (mapped nid m) bs" by simp_all
  show ?case
  proof (cases "Type b = BlockPage")
    case False
    from Cons.IH[OF rest, of "Suc idx" res rm] obtain rm' where
      l: "getSubPages_loop nid m (Suc idx) (map Some bs) (res, rm) =
            Inr (res @ map (\<lambda>b. m (nid (Block.ID b))) (filter (\<lambda>b. Type b = BlockPage) bs), rm')"
      and k: "\<forall>k. lookup rm' k =
             (lookup rm k \<or> (\<exists>j<length bs. k = int (Suc idx + j) \<and> Type (bs ! j) = BlockPage))"
      and e: "Mapping.is_empty rm' \<longleftrightarrow> Mapping.is_empty rm \<and> \<not> list_ex (\<lambda>b. Type b = BlockPage) bs"
      by blast
    have "\<forall>k. lookup rm' k =
             (lookup rm k \<or> (\<exists>j<length (b # bs). k = int (idx + j) \<and> Type ((b # bs) ! j) = BlockPage))"
    proof (intro allI)
      fix k
      have "(\<exists>j<length (b # bs). k = int (idx + j) \<and> Type ((b # bs) ! j) = BlockPage)
            = (\<exists>j<length bs. k = int (Suc idx + j) \<and> Type (bs ! j) = BlockPage)"
        using False by (auto simp: less_Suc_eq_0_disj)
      then show "lookup rm' k =
             (lookup rm k \<or> (\<exists>j<length (b # bs). k = int (idx + j) \<and> Type ((b # bs) ! j) = BlockPage))"
        using k by simp
    qed
    then show ?thesis using False l e by auto
  next
    case True
    let ?rm1 = "Mapping.update (int idx) True rm" and ?res1 = "res @ [m (nid (Block.ID b))]"
    from mb True have some: "m (nid (Block.ID b)) \<noteq> None" by (simp add: mapped_def)
    from Cons.IH[OF rest, of "Suc idx" ?res1 ?rm1] obtain rm' where
      l: "getSubPages_loop nid m (Suc idx) (map Some bs) (?res1, ?rm1) =
            Inr (?res1 @ map (\<lambda>b. m (nid (Block.ID b))) (filter (\<lambda>b. Type b = BlockPage) bs), rm')"
      and k: "\<forall>k. lookup rm' k =
             (lookup ?rm1 k \<or> (\<exists>j<length bs. k = int (Suc idx + j) \<and> Type (bs ! j) = BlockPage))"
      and e: "Mapping.is_empty rm' \<longleftrightarrow> Mapping.is_empty ?rm1 \<and> \<not> list_ex (\<lambda>b. Type b = BlockPage) bs"
      by blast
    have "\<forall>k. lookup rm' k =
             (lookup rm k \<or> (\<exists>j<length (b # bs). k = int (idx + j) \<and> Type ((b # bs) ! j) = BlockPage))"
    proof (intro allI)
      fix k
      have "(\<exists>j<length (b # bs). k = int (idx + j) \<and> Type ((b # bs) ! j) = BlockPage)
            = (k = int idx \<or> (\<exists>j<length bs. k = int (Suc idx + j) \<and> Type (bs ! j) = BlockPage))"
        using True by (auto simp: less_Suc_eq_0_disj)
      then show "lookup rm' k =
             (lookup rm k \<or> (\<exists>j<length (b # bs). k = int (idx + j) \<and> Type ((b # bs) ! j) = BlockPage))"
        using k by (auto simp: lookup_update)
    qed
    then show ?thesis using True l e some by (auto simp: Let_def panicIf_def)
  qed
qed

lemma getSubPages_missing:
  assumes c: "Root_Content page = map Some pre @ Some b # post"
    and pre: "list_all (mapped nid m) pre"
    and t: "Type b = BlockPage"
    and none: "m (nid (Block.ID b)) = None"
  shows "getSubPages nid page m = Inl (Panic (''no sub page for id '' @ nid (Block.ID b)))"
proof -
  from getSubPages_loop_mapped[OF pre, of 0 "[]" Mapping.empty] obtain res1 rm1 where
    l1: "getSubPages_loop nid m 0 (map Some pre) ([], Mapping.empty) = Inr (res1, rm1)" by auto
  have "getSubPages_loop nid m (length pre) (Some b # post) (res1, rm1)
          = Inl (Panic (''no sub page for id '' @ nid (Block.ID b)))"
    using t none by (simp add: Let_def panicIf_def)
  then show ?thesis
    by (simp add: getSubPages_def c getSubPages_loop_append l1)
qed

lemma getSubPages_mapped:
  assumes c: "Root_Content page = map Some bs"
    and all: "list_all (mapped nid m) bs"
  shows "\<exists>page'. getSubPages nid page m =
            Inr (map (\<lambda>b. m (nid (Block.ID b))) (filter (\<lambda>b. Type b = BlockPage) bs), page') \<and>
          Root_Content page' = map Some (filter (\<lambda>b. Type b \<noteq> BlockPage) bs)"
proof -
  from getSubPages_loop_mapped[OF all, of 0 "[]" Mapping.empty] obtain rm' where
    l: "getSubPages_loop nid m 0 (map Some bs) ([], Mapping.empty) =
          Inr (map (\<lambda>b. m (nid (Block.ID b))) (filter (\<lambda>b. Type b = BlockPage) bs), rm')"
    and k: "\<forall>k. lookup rm' k = (\<exists>j<length bs. k = int j \<and> Type (bs ! j) = BlockPage)"
    by (auto simp: lookup_empty)
  have "\<And>i. i < length (map Some bs) \<Longrightarrow>
          lookup rm' (int i) = (case map Some bs ! i of None \<Rightarrow> False | Some b \<Rightarrow> Type b = BlockPage)"
    using k by auto
  then have "kept rm' (map Some bs) =
      filter (\<lambda>x. \<not> (case x of None \<Rightarrow> False | Some b \<Rightarrow> Type b = BlockPage)) (map Some bs)"
    by (rule kept_filter)
  also have "\<dots> = map Some (filter (\<lambda>b. Type b \<noteq> BlockPage) bs)"
    by (simp add: filter_map comp_def)
  finally have "Root_Content (removeBlocks page rm') = map Some (filter (\<lambda>b. Type b \<noteq> BlockPage) bs)"
    by (simp add: removeBlocks_Content c)
  then show ?thesis using l by (simp add: getSubPages_def c)
qed

text \<open>
  C6: when a page-link block is reached whose normalized identifier has no entry in the
  mapping (the blocks before it are not nil and their page links are mapped),
  \<open>getSubPages\<close> panics with the message \<open>no sub page for id <identifier>\<close>; when all
  blocks are not nil and every page link is mapped, it returns the mapped pages of the
  page-link blocks in block order, and the page keeps the other blocks in their order.
\<close>

theorem getSubPages_resolves:
  "(Root_Content page = map Some pre @ Some b # post \<and> list_all (mapped nid m) pre \<and>
      Type b = BlockPage \<and> m (nid (Block.ID b)) = None
    \<longrightarrow> getSubPages nid page m = Inl (Panic (''no sub page for id '' @ nid (Block.ID b)))) \<and>
   (Root_Content page = map Some bs \<and> list_all (mapped nid m) bs
    \<longrightarrow> (\<exists>page'. getSubPages nid page m =
              Inr (map (\<lambda>b. m (nid (Block.ID b))) (filter (\<lambda>b. Type b = BlockPage) bs), page') \<and>
            Root_Content page' = map Some (filter (\<lambda>b. Type b \<noteq> BlockPage) bs)))"
  using getSubPages_missing getSubPages_mapped by blast


text \<open>A page whose second link \<open>x-9\<close> is not mapped, and a page with the links \<open>c-2\<close> and
  \<open>c-1\<close> around a text block.\<close>

theorem getSubPages_resolves_witness:
  "getSubPages noDashID
     (notionPage ''p'' [Some (textBlock ''a''), Some (pageLinkBlock ''c-1''),
                        Some (pageLinkBlock ''x-9''), Some (textBlock ''b'')] [''i0'', ''i1'', ''i2'', ''i3''])
     (map_of [(''c1'', notionPage ''c1'' [] []), (''c2'', notionPage ''c2'' [] [])])
   = Inl (Panic ''no sub page for id x9'') \<and>
   (\<exists>page'. getSubPages noDashID
      (notionPage ''p'' [Some (pageLinkBlock ''c-2''), Some (textBlock ''a''), Some (pageLinkBlock ''c-1'')]
         [''i0'', ''i1'', ''i2''])
      (map_of [(''c1'', notionPage ''c1'' [] []), (''c2'', notionPage ''c2'' [] [])])
    = Inr ([Some (notionPage ''c2'' [] []), Some (notionPage ''c1'' [] [])], page') \<and>
    Root_Content page' = [Some (textBlock ''a'')])"
proof -
  let ?m = "map_of [(''c1'', notionPage ''c1'' [] []), (''c2'', notionPage ''c2'' [] [])]"
  let ?A = "notionPage ''p'' [Some (textBlock ''a''), Some (pageLinkBlock ''c-1''),
                        Some (pageLinkBlock ''x-9''), Some (textBlock ''b'')] [''i0'', ''i1'', ''i2'', ''i3'']"
  let ?B = "notionPage ''p'' [Some (pageLinkBlock ''c-2''), Some (textBlock ''a''), Some (pageLinkBlock ''c-1'')]
         [''i0'', ''i1'', ''i2'']"
  have a: "Root_Content ?A = map Some [textBlock ''a'', pageLinkBlock ''c-1'']
             @ Some (pageLinkBlock ''x-9'') # [Some (textBlock ''b'')] \<and>
           list_all (mapped noDashID ?m) [textBlock ''a'', pageLinkBlock ''c-1''] \<and>
           Type (pageLinkBlock ''x-9'') = BlockPage \<and>
           ?m (noDashID (Block.ID (pageLinkBlock ''x-9''))) = None"
    by (simp add: notionPage_def mapped_def textBlock_def pageLinkBlock_def noDashID_def)
  have b: "Root_Content ?B = map Some [pageLinkBlock ''c-2'', textBlock ''a'', pageLinkBlock ''c-1''] \<and>
           list_all (mapped noDashID ?m) [pageLinkBlock ''c-2'', textBlock ''a'', pageLinkBlock ''c-1'']"
    by (simp add: notionPage_def mapped_def textBlock_def pageLinkBlock_def noDashID_def)
  note inst1 = getSubPages_resolves[where page = ?A and pre = "[textBlock ''a'', pageLinkBlock ''c-1'']"
      and b = "pageLinkBlock ''x-9''" and post = "[Some (textBlock ''b'')]" and nid = noDashID and m = ?m]
  have r1: "getSubPages noDashID ?A ?m = Inl (Panic (''no sub page for id '' @ noDashID (Block.ID (pageLinkBlock ''x-9''))))"
    using inst1 a by blast
  note inst2 = getSubPages_resolves[where page = ?B
      and bs = "[pageLinkBlock ''c-2'', textBlock ''a'', pageLinkBlock ''c-1'']" and nid = noDashID and m = ?m]
  have r2: "\<exists>page'. getSubPages noDashID ?B ?m =
              Inr (map (\<lambda>b. ?m (noDashID (Block.ID b)))
                     (filter (\<lambda>b. Type b = BlockPage) [pageLinkBlock ''c-2'', textBlock ''a'', pageLinkBlock ''c-1'']), page') \<and>
            Root_Content page' = map Some (filter (\<lambda>b. Type b \<noteq> BlockPage)
                     [pageLinkBlock ''c-2'', textBlock ''a'', pageLinkBlock ''c-1''])"
    using inst2 b by blast
  from r1 r2 show ?thesis
    by (simp add: textBlock_def pageLinkBlock_def noDashID_def)
qed

section \<open>Properties of embed extraction\<close>

lemma gitoembed_Parse_error: "Parse uri = Inl e \<Longrightarrow> gitoembedToRelativePath uri = Inr []"
  by (simp add: gitoembedToRelativePath_def)

lemma gitoembed_other_host:
  "Parse uri = Inr u \<Longrightarrow> Host u \<noteq> ''www.onlinetool.io'' \<Longrightarrow> Host u \<noteq> ''onlinetool.io'' \<Longrightarrow>
   gitoembedToRelativePath uri = Inr []"
  by (simp add: gitoembedToRelativePath_def)

lemma gitoembed_other_path:
  "Parse uri = Inr u \<Longrightarrow> URL.Path u \<noteq> ''/gitoembed/widget'' \<Longrightarrow>
   gitoembedToRelativePath uri = Inr []"
  by (simp add: gitoembedToRelativePath_def Let_def)

lemma TrimPrefix_same: "pre \<noteq> [] \<Longrightarrow> (TrimPrefix s pre = s) = (\<not> HasPrefix s pre)"
  by (auto simp: TrimPrefix_def HasPrefix_def) (metis append_take_drop_id self_append_conv2)

lemma gitoembed_inner_other:
  "Parse uri = Inr u \<Longrightarrow> Parse (Query_Get u ''url'') = Inr v \<Longrightarrow>
   Host v \<noteq> ''github.com'' \<or> \<not> HasPrefix (URL.Path v) ''/essentialbooks/books/'' \<Longrightarrow>
   gitoembedToRelativePath uri = Inr []"
  using TrimPrefix_same[of "''/essentialbooks/books/''" "URL.Path v"]
  by (auto simp: gitoembedToRelativePath_def Let_def)

lemma gitoembed_inner_error:
  "Parse uri = Inr u \<Longrightarrow> Host u = ''www.onlinetool.io'' \<or> Host u = ''onlinetool.io'' \<Longrightarrow>
   URL.Path u = ''/gitoembed/widget'' \<Longrightarrow> Parse (Query_Get u ''url'') = Inl e \<Longrightarrow>
   gitoembedToRelativePath uri = Inl NilDeref"
  by (auto simp: gitoembedToRelativePath_def Let_def)

lemma embedSourceFile_unresolved:
  "gitoembedToRelativePath uri = Inr [] \<Longrightarrow>
   embedSourceFile env wd uri =
     Inr (\<lparr>EmbedURL = uri, FileName = [], Path = [], Lines = [], FileExists = False\<rparr>,
          [parseFailureLine uri])"
  by (simp add: embedSourceFile_def)

lemma embedSourceFile_EmbedURL:
  "embedSourceFile env wd uri = Inr (f, printed) \<Longrightarrow> EmbedURL f = uri"
  by (auto simp: embedSourceFile_def Let_def split: sum.splits if_splits prod.splits option.splits)

lemma embedSourceFile_total:
  "gitoembedToRelativePath uri = Inr path \<Longrightarrow> \<exists>f printed. embedSourceFile env wd uri = Inr (f, printed)"
  by (auto simp: embedSourceFile_def Let_def split: prod.splits option.splits)

lemma embedBlocks_Cons:
  "embedBlocks (block # rest) =
     (case block of None \<Rightarrow> embedBlocks rest
      | Some b \<Rightarrow> if Type b = BlockEmbed then b # embedBlocks rest else embedBlocks rest)"
  by (simp add: embedBlocks_def split: option.splits)

lemma embedBlocks_Nil: "embedBlocks [] = []"
  by (simp add: embedBlocks_def)

lemma extractEmbeddedSourceFiles_loop_files:
  "extractEmbeddedSourceFiles_loop env wd blocks (p, out) = Inr (p', out') \<Longrightarrow>
   None \<notin> set blocks \<and> NotionPage p' = NotionPage p \<and>
   (\<exists>fs. SourceFiles p' = SourceFiles p @ fs \<and>
         map EmbedURL fs = map DisplaySource (embedBlocks blocks))"
proof (induction blocks arbitrary: p out)
  case Nil
  then show ?case by (simp add: embedBlocks_Nil)
next
  case (Cons block rest)
  from Cons.prems obtain b where b: "block = Some b" by (cases block) simp_all
  show ?case
  proof (cases "Type b = BlockEmbed")
    case False
    with Cons.prems b have "extractEmbeddedSourceFiles_loop env wd rest (p, out) = Inr (p', out')"
      by simp
    from Cons.IH[OF this] False b show ?thesis by (simp add: embedBlocks_Cons)
  next
    case True
    with Cons.prems b obtain f printed where
      e: "embedSourceFile env wd (DisplaySource b) = Inr (f, printed)" and
      l: "extractEmbeddedSourceFiles_loop env wd rest
            (p\<lparr>SourceFiles := SourceFiles p @ [f]\<rparr>, out @ printed) = Inr (p', out')"
      by (auto simp: Let_def split: sum.splits)
    from Cons.IH[OF l] obtain fs where
      n: "None \<notin> set rest" "NotionPage p' = NotionPage p" and
      fs: "SourceFiles p' = (SourceFiles p @ [f]) @ fs"
          "map EmbedURL fs = map DisplaySource (embedBlocks rest)"
      by auto
    have "SourceFiles p' = SourceFiles p @ (f # fs)" using fs(1) by simp
    moreover have "map EmbedURL (f # fs) = map DisplaySource (embedBlocks (block # rest))"
      using fs(2) embedSourceFile_EmbedURL[OF e] True b by (simp add: embedBlocks_Cons)
    ultimately show ?thesis using n b by auto
  qed
qed

lemma extractEmbeddedSourceFiles_one_per_embed:
  assumes "extractEmbeddedSourceFiles env p = Inr (p', out)"
  shows "\<exists>fs. SourceFiles p' = SourceFiles p @ fs \<and>
              map EmbedURL fs = map DisplaySource (embedBlocks (Root_Content (NotionPage p)))"
proof -
  obtain wd err where g: "Getwd env = (wd, err)" by (cases "Getwd env")
  with assms have "extractEmbeddedSourceFiles_loop env wd (Root_Content (NotionPage p)) (p, []) = Inr (p', out)"
    by (auto simp: extractEmbeddedSourceFiles_def split: sum.splits)
  from extractEmbeddedSourceFiles_loop_files[OF this] show ?thesis by blast
qed

lemma extractEmbeddedSourceFiles_loop_total:
  "None \<notin> set blocks \<Longrightarrow>
   \<forall>b\<in>set (embedBlocks blocks). \<exists>path. gitoembedToRelativePath (DisplaySource b) = Inr path \<Longrightarrow>
   \<exists>p' out'. extractEmbeddedSourceFiles_loop env wd blocks (p, out) = Inr (p', out')"
proof (induction blocks arbitrary: p out)
  case Nil
  then show ?case by simp
next
  case (Cons block rest)
  from Cons.prems(1) obtain b where b: "block = Some b" and n: "None \<notin> set rest"
    by (cases block) auto
  show ?case
  proof (cases "Type b = BlockEmbed")
    case False
    with Cons.prems(2) b have "\<forall>b\<in>set (embedBlocks rest). \<exists>path. gitoembedToRelativePath (DisplaySource b) = Inr path"
      by (simp add: embedBlocks_Cons)
    from Cons.IH[OF n this] False b show ?thesis by simp
  next
    case True
    with Cons.prems(2) b have r: "\<forall>b\<in>set (embedBlocks rest). \<exists>path. gitoembedToRelativePath (DisplaySource b) = Inr path"
      and g: "\<exists>path. gitoembedToRelativePath (DisplaySource b) = Inr path"
      by (simp_all add: embedBlocks_Cons)
    from g obtain f printed where e: "embedSourceFile env wd (DisplaySource b) = Inr (f, printed)"
      using embedSourceFile_total by blast
    from Cons.IH[OF n r] True b e show ?thesis by (simp add: Let_def)
  qed
qed

text \<open>
  C4: an embed URL that is not a viewer URL for a file of the repository resolves to the
  empty path, the file recorded for it has \<open>FileExists\<close> false, and no panic leaves the
  resolver. The first two hold whenever both URLs parse (\<open>gitoembed_Parse_error\<close>,
  \<open>gitoembed_other_host\<close>, \<open>gitoembed_other_path\<close>, \<open>gitoembed_inner_other\<close>,
  \<open>embedSourceFile_unresolved\<close>). The third fails: when the \<open>url\<close> parameter of a viewer
  URL does not parse, here \<open>:\<close> written \<open>%3A\<close>, the resolver reads \<open>parsed.Host\<close>
  through a nil pointer (\<open>gitoembed_inner_error\<close>).
\<close>

theorem gitoembedToRelativePath_nil_deref:
  "gitoembedToRelativePath ''https://onlinetool.io/gitoembed/widget?url=%3A'' = Inl NilDeref"
  by code_simp

text \<open>The panic of the resolver ends the loop: an embed block after the one with the
  bad URL gets no file.\<close>

lemma extractEmbeddedSourceFiles_stops:
  "extractEmbeddedSourceFiles exampleEnv
     (newPage (notionPage ''p''
        [Some (embedBlock ''https://onlinetool.io/gitoembed/widget?url=%3A''),
         Some (embedBlock ''https://example.com/a.go'')] [''i0'', ''i1'']))
   = Inl NilDeref"
  by code_simp

text \<open>
  C9: embed extraction appends one file per embed block, in block order, whether or not
  the URL resolves and whether or not the file can be read. This holds for every run
  that returns (\<open>extractEmbeddedSourceFiles_one_per_embed\<close>), and the loop returns when
  no block is nil and the resolver returns for every embed URL
  (\<open>extractEmbeddedSourceFiles_loop_total\<close>). It fails on a page with an embed block
  whose viewer URL has a \<open>url\<close> parameter that does not parse: the panic of the resolver
  ends the extraction.
\<close>

theorem extractEmbeddedSourceFiles_nil_deref:
  "extractEmbeddedSourceFiles exampleEnv
     (newPage (notionPage ''p'' [Some (embedBlock ''https://onlinetool.io/gitoembed/widget?url=%3A'')] [''i0'']))
   = Inl NilDeref"
  by code_simp

end
